theory Spec2Isabelle
  imports Complex_Main "HOL-Library.Word" "HOL-Library.AList" "HOL-Library.Product_Lexorder"
begin

unbundle bit_operations_syntax

section \<open>JavaScript values used by the program\<close>

subsection \<open>Numbers\<close>

text \<open>
  A JavaScript number is a not-a-number, an infinity or a finite value, taken as a real.
  The operations \<open>jadd\<close>, \<open>jsub\<close>, \<open>jmul\<close> and \<open>jdiv\<close> give the exact result of an
  operation on such values. An operation on doubles gives this result rounded to the
  nearest double: these are \<open>mul64\<close>, \<open>div64\<close> and \<open>sub64\<close> below, and the crop of
  \<^verbatim>\<open>applyTitle\<close>, whose results are cut to whole pixels, is computed with them. The
  counters and the geometry of the watermark are stated with the exact operations: the
  rounding is left out there. The sign of a zero is not tracked; every divisor that can
  be zero in this program is a natural width, height or a quotient of such, hence a
  positive zero (the target ratio of the crop divides only where it is greater than the
  ratio of the image, which is not negative).
\<close>

datatype jsnum = NaN | PosInf | NegInf | Fin real

text \<open>\<^verbatim>\<open>!x\<close> on a number holds for zero and not-a-number.\<close>

definition truthy :: "jsnum \<Rightarrow> bool" where
  "truthy x = (x \<noteq> NaN \<and> x \<noteq> Fin 0)"

fun jneg :: "jsnum \<Rightarrow> jsnum" where
  "jneg NaN = NaN"
| "jneg PosInf = NegInf"
| "jneg NegInf = PosInf"
| "jneg (Fin a) = Fin (- a)"

fun jadd :: "jsnum \<Rightarrow> jsnum \<Rightarrow> jsnum" where
  "jadd (Fin a) (Fin b) = Fin (a + b)"
| "jadd NaN _ = NaN"
| "jadd _ NaN = NaN"
| "jadd PosInf NegInf = NaN"
| "jadd NegInf PosInf = NaN"
| "jadd PosInf _ = PosInf"
| "jadd NegInf _ = NegInf"
| "jadd _ PosInf = PosInf"
| "jadd _ NegInf = NegInf"

definition jsub :: "jsnum \<Rightarrow> jsnum \<Rightarrow> jsnum" where
  "jsub a b = jadd a (jneg b)"

definition signed_inf :: "bool \<Rightarrow> jsnum" where
  "signed_inf positive = (if positive then PosInf else NegInf)"

fun jmul :: "jsnum \<Rightarrow> jsnum \<Rightarrow> jsnum" where
  "jmul (Fin a) (Fin b) = Fin (a * b)"
| "jmul NaN _ = NaN"
| "jmul _ NaN = NaN"
| "jmul PosInf (Fin b) = (if b = 0 then NaN else signed_inf (0 < b))"
| "jmul NegInf (Fin b) = (if b = 0 then NaN else signed_inf (b < 0))"
| "jmul (Fin a) PosInf = (if a = 0 then NaN else signed_inf (0 < a))"
| "jmul (Fin a) NegInf = (if a = 0 then NaN else signed_inf (a < 0))"
| "jmul PosInf PosInf = PosInf"
| "jmul NegInf NegInf = PosInf"
| "jmul PosInf NegInf = NegInf"
| "jmul NegInf PosInf = NegInf"

fun jdiv :: "jsnum \<Rightarrow> jsnum \<Rightarrow> jsnum" where
  "jdiv (Fin a) (Fin b) =
     (if b = 0 then (if a = 0 then NaN else signed_inf (0 < a)) else Fin (a / b))"
| "jdiv NaN _ = NaN"
| "jdiv _ NaN = NaN"
| "jdiv (Fin a) PosInf = Fin 0"
| "jdiv (Fin a) NegInf = Fin 0"
| "jdiv PosInf (Fin b) = signed_inf (0 \<le> b)"
| "jdiv NegInf (Fin b) = signed_inf (b < 0)"
| "jdiv PosInf PosInf = NaN"
| "jdiv PosInf NegInf = NaN"
| "jdiv NegInf PosInf = NaN"
| "jdiv NegInf NegInf = NaN"

text \<open>\<^verbatim>\<open>a < b\<close>: false as soon as one side is not a number.\<close>

fun jlt :: "jsnum \<Rightarrow> jsnum \<Rightarrow> bool" where
  "jlt (Fin a) (Fin b) = (a < b)"
| "jlt NaN _ = False"
| "jlt _ NaN = False"
| "jlt PosInf _ = False"
| "jlt _ NegInf = False"
| "jlt NegInf _ = True"
| "jlt _ PosInf = True"

definition jgt :: "jsnum \<Rightarrow> jsnum \<Rightarrow> bool" where
  "jgt a b = jlt b a"

subsection \<open>Rounding to a double\<close>

text \<open>
  The finite doubles are the numbers \<open>\<plusminus> m * 2^e\<close> with \<open>m < 2^53\<close> and
  \<open>-1074 \<le> e \<le> 971\<close>. Around a magnitude \<open>a\<close> with \<open>2^52 * u \<le> a < 2^53 * u\<close>, for
  \<open>u\<close> a power of two, neighbouring doubles are \<open>u\<close> apart, and the least and the greatest
  such distance are \<open>2^-1074\<close> and \<open>2^971\<close>. The distance \<open>ulp a\<close> is searched from 1,
  halving down or doubling up, in at most 1074 and 971 steps.
\<close>

primrec ulpUp :: "nat \<Rightarrow> real \<Rightarrow> real \<Rightarrow> real" where
  "ulpUp 0 u a = u"
| "ulpUp (Suc n) u a = (if 2 ^ 53 * u \<le> a then ulpUp n (2 * u) a else u)"

primrec ulpDown :: "nat \<Rightarrow> real \<Rightarrow> real \<Rightarrow> real" where
  "ulpDown 0 u a = u"
| "ulpDown (Suc n) u a = (if a < 2 ^ 52 * u then ulpDown n (u / 2) a else u)"

definition ulp :: "real \<Rightarrow> real" where
  "ulp a = (if 2 ^ 53 \<le> a then ulpUp 971 1 a else ulpDown 1074 1 a)"

text \<open>The nearest integer, the even one of two that are equally near.\<close>

definition roundHalfEven :: "real \<Rightarrow> int" where
  "roundHalfEven q =
     (let n = \<lfloor>q\<rfloor>; r = q - of_int n
      in if r < 1 / 2 then n else if 1 / 2 < r then n + 1 else if even n then n else n + 1)"

text \<open>
  The multiple of the distance that is nearest to a magnitude, and the rounding of a
  real to a double: to the nearest, ties to the even one, and to an infinity when the
  rounded magnitude is \<open>2^1024\<close> or more.
\<close>

definition nearest :: "real \<Rightarrow> real" where
  "nearest a = of_int (roundHalfEven (a / ulp a)) * ulp a"

definition binary64 :: "real \<Rightarrow> jsnum" where
  "binary64 x =
     (if x = 0 then Fin 0
      else if 2 ^ 1024 \<le> nearest \<bar>x\<bar> then signed_inf (0 < x)
      else Fin (if 0 < x then nearest x else - nearest (- x)))"

fun round64 :: "jsnum \<Rightarrow> jsnum" where
  "round64 (Fin x) = binary64 x"
| "round64 x = x"

text \<open>\<^verbatim>\<open>a * b\<close>, \<^verbatim>\<open>a / b\<close> and \<^verbatim>\<open>a - b\<close> on doubles.\<close>

definition mul64 :: "jsnum \<Rightarrow> jsnum \<Rightarrow> jsnum" where
  "mul64 a b = round64 (jmul a b)"

definition div64 :: "jsnum \<Rightarrow> jsnum \<Rightarrow> jsnum" where
  "div64 a b = round64 (jdiv a b)"

definition sub64 :: "jsnum \<Rightarrow> jsnum \<Rightarrow> jsnum" where
  "sub64 a b = round64 (jsub a b)"

text \<open>
  An array element read by destructuring is a number or \<^verbatim>\<open>undefined\<close>
  (\<open>None\<close>), and \<^verbatim>\<open>!undefined\<close> holds.
\<close>

definition falsy :: "jsnum option \<Rightarrow> bool" where
  "falsy v = (case v of None \<Rightarrow> True | Some x \<Rightarrow> \<not> truthy x)"

text \<open>\<^verbatim>\<open>undefined\<close> in arithmetic is not-a-number.\<close>

definition toNumber :: "jsnum option \<Rightarrow> jsnum" where
  "toNumber v = (case v of None \<Rightarrow> NaN | Some x \<Rightarrow> x)"

subsection \<open>Strings\<close>

text \<open>
  \<^verbatim>\<open>s.split(c)\<close> for a one-character separator: the pieces between the
  separators, so a string without separator is its only piece and the empty string
  splits into one empty piece.
\<close>

fun split :: "char \<Rightarrow> string \<Rightarrow> string list" where
  "split c [] = [[]]"
| "split c (x # xs) =
     (if x = c then [] # split c xs
      else (case split c xs of p # ps \<Rightarrow> (x # p) # ps | [] \<Rightarrow> [[x]]))"

text \<open>\<^verbatim>\<open>xs[i]\<close>: \<^verbatim>\<open>undefined\<close> out of range.\<close>

definition element :: "'a list \<Rightarrow> nat \<Rightarrow> 'a option" where
  "element xs i = (if i < length xs then Some (xs ! i) else None)"

text \<open>\<^verbatim>\<open>xs.join(' ')\<close>.\<close>

fun join :: "string list \<Rightarrow> string" where
  "join [] = []"
| "join [x] = x"
| "join (x # y # ys) = x @ '' '' @ join (y # ys)"

text \<open>
  White space and letter case are those of ASCII: the characters of a \<open>string\<close> here
  are bytes, and a byte outside ASCII is neither white space nor a letter.
\<close>

definition isWhiteSpace :: "char \<Rightarrow> bool" where
  "isWhiteSpace c = (c \<in> set [CHR '' '', CHR 0x09, CHR 0x0A, CHR 0x0B, CHR 0x0C, CHR 0x0D])"

definition trim :: "string \<Rightarrow> string" where
  "trim s = rev (dropWhile isWhiteSpace (rev (dropWhile isWhiteSpace s)))"

definition upperChar :: "char \<Rightarrow> char" where
  "upperChar c =
     (let n = (of_char c :: nat)
      in if 97 \<le> n \<and> n \<le> 122 then char_of (n - 32) else c)"

definition toUpperCase :: "string \<Rightarrow> string" where
  "toUpperCase s = map upperChar s"

section \<open>Usage counters (App)\<close>

subsection \<open>Dates\<close>

text \<open>
  The proleptic Gregorian calendar of \<^verbatim>\<open>Date\<close>: day 0 is 1970-01-01, and a
  day number is turned into year, month and day of month by stepping from there.
\<close>

type_synonym civil = "int \<times> nat \<times> nat"

definition isLeapYear :: "int \<Rightarrow> bool" where
  "isLeapYear y = ((y mod 4 = 0 \<and> y mod 100 \<noteq> 0) \<or> y mod 400 = 0)"

definition daysInMonth :: "int \<Rightarrow> nat \<Rightarrow> nat" where
  "daysInMonth y m =
     (if m = 2 then (if isLeapYear y then 29 else 28)
      else if m = 4 \<or> m = 6 \<or> m = 9 \<or> m = 11 then 30 else 31)"

fun nextDay :: "civil \<Rightarrow> civil" where
  "nextDay (y, m, d) =
     (if d < daysInMonth y m then (y, m, d + 1)
      else if m < 12 then (y, m + 1, 1)
      else (y + 1, 1, 1))"

fun prevDay :: "civil \<Rightarrow> civil" where
  "prevDay (y, m, d) =
     (if 1 < d then (y, m, d - 1)
      else if 1 < m then (y, m - 1, daysInMonth y (m - 1))
      else (y - 1, 12, 31))"

text \<open>Month and day of month within the calendar's ranges.\<close>

definition validDate :: "civil \<Rightarrow> bool" where
  "validDate t = (case t of (y, m, d) \<Rightarrow> 1 \<le> m \<and> m \<le> 12 \<and> 1 \<le> d \<and> d \<le> 31)"

definition civilFromDays :: "int \<Rightarrow> civil" where
  "civilFromDays z =
     (if 0 \<le> z then (nextDay ^^ nat z) (1970, 1, 1)
      else (prevDay ^^ nat (- z)) (1970, 1, 1))"

text \<open>Decimal digits of a natural number, and \<^verbatim>\<open>padStart(w, '0')\<close>.\<close>

definition digitChar :: "nat \<Rightarrow> char" where
  "digitChar d = char_of (48 + d)"

function digits :: "nat \<Rightarrow> string" where
  "digits n = (if n < 10 then [digitChar n] else digits (n div 10) @ [digitChar (n mod 10)])"
  by pat_completeness auto
termination
  by (relation "measure id") auto

declare digits.simps [simp del]

definition padStart :: "nat \<Rightarrow> string \<Rightarrow> string" where
  "padStart w s = replicate (w - length s) CHR ''0'' @ s"

text \<open>
  The year of an ISO date string: four digits from year 0 to 9999, else a sign and six
  digits.
\<close>

definition yearString :: "int \<Rightarrow> string" where
  "yearString y =
     (if 0 \<le> y \<and> y \<le> 9999 then padStart 4 (digits (nat y))
      else (if y < 0 then ''-'' else ''+'') @ padStart 6 (digits (nat \<bar>y\<bar>)))"

definition msPerDay :: int where
  "msPerDay = 86400000"

text \<open>The date part of an ISO date string, \<^verbatim>\<open>YYYY-MM-DD\<close>.\<close>

fun dateString :: "civil \<Rightarrow> string" where
  "dateString (y, m, d) =
     yearString y @ ''-'' @ padStart 2 (digits m) @ ''-'' @ padStart 2 (digits d)"

text \<open>
  \<^verbatim>\<open>new Date(ms).toISOString().split('T')[0]\<close>: the date part of the ISO string,
  which is the calendar date in UTC of the instant \<open>ms\<close> (milliseconds since the epoch).
\<close>

definition toISOString_date :: "int \<Rightarrow> string" where
  "toISOString_date ms = dateString (civilFromDays (ms div msPerDay))"

text \<open>
  A \<^verbatim>\<open>Date\<close> object: its instant, and the offset of the local time zone in minutes
  (UTC minus local time) that \<^verbatim>\<open>getTimezoneOffset\<close> reports for it. The offset of a
  date object stays with it when \<^verbatim>\<open>setDate\<close> moves it by whole days.
\<close>

record jsDate =
  getTime :: int
  getTimezoneOffset :: int

definition localDays :: "jsDate \<Rightarrow> int" where
  "localDays date = (getTime date - getTimezoneOffset date * 60 * 1000) div msPerDay"

definition getFullYear :: "jsDate \<Rightarrow> int" where
  "getFullYear date = (case civilFromDays (localDays date) of (y, m, d) \<Rightarrow> y)"

definition getMonth :: "jsDate \<Rightarrow> int" where
  "getMonth date = (case civilFromDays (localDays date) of (y, m, d) \<Rightarrow> int m - 1)"

definition getDate :: "jsDate \<Rightarrow> int" where
  "getDate date = (case civilFromDays (localDays date) of (y, m, d) \<Rightarrow> int d)"

text \<open>
  \<^verbatim>\<open>date.setDate(n)\<close>: day \<open>n\<close> of the date's local month, where a day number
  below 1 or beyond the month's end runs into the neighbouring months; the local time
  of day is kept.
\<close>

definition setDate :: "jsDate \<Rightarrow> int \<Rightarrow> jsDate" where
  "setDate date n = date\<lparr>getTime := getTime date + (n - getDate date) * msPerDay\<rparr>"

text \<open>\<^verbatim>\<open>getISODateString\<close>: the calendar date in the local time zone.\<close>

definition getISODateString :: "jsDate \<Rightarrow> string" where
  "getISODateString date =
     (let offset = getTimezoneOffset date;
          adjustedDate = getTime date - (offset * 60 * 1000)
      in toISOString_date adjustedDate)"

subsection \<open>The persisted record\<close>

text \<open>
  The stats object read from local storage, every property optional:
  \<^verbatim>\<open>today: {date, count}\<close> of the old shape, \<^verbatim>\<open>total\<close>, and
  \<^verbatim>\<open>dailyCounts\<close>, whose entries are kept in insertion order. The object with no
  property is \<^verbatim>\<open>{}\<close>.
\<close>

record StoredStats =
  oldToday :: "(string \<times> nat) option"
  storedTotal :: "nat option"
  dailyCounts :: "(string \<times> nat) list option"

definition emptyObject :: StoredStats where
  "emptyObject = \<lparr>oldToday = None, storedTotal = None, dailyCounts = None\<rparr>"

text \<open>
  The string stored under the key of the counters: empty, not parsable as JSON, or the
  JSON text of a stats object (written by \<^verbatim>\<open>JSON.stringify\<close>, read by
  \<^verbatim>\<open>JSON.parse\<close>). Other JSON values are not modelled. The storage holds such a
  string or nothing.
\<close>

datatype item = EmptyString | Malformed | Json StoredStats

type_synonym localStorage = "item option"

record UsageStats =
  today :: nat
  yesterday :: nat
  last7Days :: nat
  thisMonth :: nat
  total :: nat

text \<open>\<^verbatim>\<open>dailyCounts[key] || 0\<close>.\<close>

definition countOr0 :: "(string \<times> nat) list \<Rightarrow> string \<Rightarrow> nat" where
  "countOr0 counts key = (case map_of counts key of None \<Rightarrow> 0 | Some c \<Rightarrow> c)"

text \<open>
  \<^verbatim>\<open>calculateStats\<close>. \<open>Number\<close> is the conversion of a string to a number of the
  language, \<open>now\<close> the date object that \<^verbatim>\<open>new Date()\<close> gives during the call (the
  calls of one invocation read the same instant).
\<close>

definition calculateStats :: "(string \<Rightarrow> jsnum) \<Rightarrow> jsDate \<Rightarrow> StoredStats \<Rightarrow> UsageStats" where
  "calculateStats Number now data =
     (let counts = (case dailyCounts data of None \<Rightarrow> [] | Some c \<Rightarrow> c);
          total' = (case storedTotal data of None \<Rightarrow> 0 | Some t \<Rightarrow> t);
          todayStr = getISODateString now;
          yesterday' = setDate now (getDate now - 1);
          yesterdayStr = getISODateString yesterday';
          last7DaysCount =
            foldl (\<lambda>acc i. acc + countOr0 counts (getISODateString (setDate now (getDate now - int i))))
              0 [0 ..< 7];
          currentMonth = getMonth now;
          currentYear = getFullYear now;
          thisMonthCount =
            foldl (\<lambda>acc (dateStr, c).
                let parts = map Number (split CHR ''-'' dateStr);
                    year = element parts 0;
                    month = element parts 1
                in if year = Some (Fin (real_of_int currentYear))
                      \<and> jsub (toNumber month) (Fin 1) = Fin (real_of_int currentMonth)
                   then acc + c else acc)
              0 counts
      in \<lparr>today = countOr0 counts todayStr,
          yesterday = countOr0 counts yesterdayStr,
          last7Days = last7DaysCount,
          thisMonth = thisMonthCount,
          total = total'\<rparr>)"

text \<open>
  The effect run when the application mounts: it reads the storage, migrates a record of
  the old shape, removes a string that does not parse, and computes the displayed
  statistics. It returns the storage and the statistics.
\<close>

definition mountEffect :: "(string \<Rightarrow> jsnum) \<Rightarrow> jsDate \<Rightarrow> localStorage \<Rightarrow> localStorage \<times> UsageStats" where
  "mountEffect Number now storage =
     (case storage of
        None \<Rightarrow> (None, calculateStats Number now emptyObject)
      | Some EmptyString \<Rightarrow> (Some EmptyString, calculateStats Number now emptyObject)
      | Some Malformed \<Rightarrow> (None, calculateStats Number now emptyObject)
      | Some (Json storedStats) \<Rightarrow>
          (case (oldToday storedStats, storedTotal storedStats, dailyCounts storedStats) of
             (Some (todayDate, todayCount), Some t, None) \<Rightarrow>
               (let todayDateObj = toISOString_date (getTime now);
                    newDailyCounts = (if todayDate = todayDateObj then [(todayDate, todayCount)] else []);
                    migrated = \<lparr>oldToday = None, storedTotal = Some t, dailyCounts = Some newDailyCounts\<rparr>
                in (Some (Json migrated), calculateStats Number now migrated))
           | _ \<Rightarrow> (Some (Json storedStats), calculateStats Number now storedStats)))"

text \<open>
  \<^verbatim>\<open>incrementUsage\<close>: one more use today. It returns the storage and the displayed
  statistics.
\<close>

definition incrementUsage :: "(string \<Rightarrow> jsnum) \<Rightarrow> jsDate \<Rightarrow> localStorage \<Rightarrow> localStorage \<times> UsageStats" where
  "incrementUsage Number now storage =
     (let (currentTotal, currentCounts) =
            (case storage of
               Some (Json parsed) \<Rightarrow>
                 (storedTotal parsed, (case dailyCounts parsed of None \<Rightarrow> [] | Some c \<Rightarrow> c))
             | _ \<Rightarrow> (Some 0, []));
          todayStr = getISODateString now;
          newTotal = (case currentTotal of None \<Rightarrow> 0 | Some t \<Rightarrow> t) + 1;
          newDailyCounts = AList.update todayStr (countOr0 currentCounts todayStr + 1) currentCounts;
          newStatsToStore = \<lparr>oldToday = None, storedTotal = Some newTotal, dailyCounts = Some newDailyCounts\<rparr>
      in (Some (Json newStatsToStore), calculateStats Number now newStatsToStore))"

text \<open>A sequence of uses, each at its own instant.\<close>

definition incrementUsages :: "(string \<Rightarrow> jsnum) \<Rightarrow> jsDate list \<Rightarrow> localStorage \<Rightarrow> localStorage" where
  "incrementUsages Number dates storage = foldl (\<lambda>st now. fst (incrementUsage Number now st)) storage dates"

text \<open>
  The statistics shown when the application mounts at \<open>now\<close>, after the uses \<open>dates\<close>
  on a storage that was empty.
\<close>

definition statsAfter :: "(string \<Rightarrow> jsnum) \<Rightarrow> jsDate \<Rightarrow> jsDate list \<Rightarrow> UsageStats" where
  "statsAfter Number now dates = snd (mountEffect Number now (incrementUsages Number dates None))"

text \<open>
  What a storage holds for the code that reads it: the running total and the daily
  counts, both empty when the storage holds no parsable record.
\<close>

definition totalOf :: "localStorage \<Rightarrow> nat" where
  "totalOf storage =
     (case storage of
        Some (Json parsed) \<Rightarrow> (case storedTotal parsed of None \<Rightarrow> 0 | Some t \<Rightarrow> t)
      | _ \<Rightarrow> 0)"

definition countsOf :: "localStorage \<Rightarrow> (string \<times> nat) list" where
  "countsOf storage =
     (case storage of
        Some (Json parsed) \<Rightarrow> (case dailyCounts parsed of None \<Rightarrow> [] | Some c \<Rightarrow> c)
      | _ \<Rightarrow> [])"

text \<open>A storage that holds no record of the old shape.\<close>

definition newShape :: "localStorage \<Rightarrow> bool" where
  "newShape storage = (case storage of Some (Json parsed) \<Rightarrow> oldToday parsed = None | _ \<Rightarrow> True)"

text \<open>
  A conversion of strings to numbers that is that of the language on strings of decimal
  digits and on the empty string (which is 0); it is used to run the definitions on
  examples.
\<close>

definition digitsValue :: "string \<Rightarrow> nat" where
  "digitsValue s = foldl (\<lambda>acc c. 10 * acc + (of_char c - 48)) 0 s"

definition isDigit :: "char \<Rightarrow> bool" where
  "isDigit c = (48 \<le> (of_char c :: nat) \<and> (of_char c :: nat) \<le> 57)"

definition decimalNumber :: "string \<Rightarrow> jsnum" where
  "decimalNumber s = (if list_all isDigit s then Fin (real (digitsValue s)) else NaN)"

section \<open>Canvas compositing (fileUtils)\<close>

subsection \<open>Images, the drawing context and the canvas\<close>

text \<open>
  A decoded image: where it was loaded from and its natural size, which the browser
  reports as unsigned 32-bit integers.
\<close>

record image =
  src :: string
  naturalWidth :: "32 word"
  naturalHeight :: "32 word"

text \<open>
  A font as the code sets it, \<^verbatim>\<open>`${weight} ${size}px ${family}`\<close>, kept by its three
  parts.
\<close>

record cssFont =
  weight :: nat
  px :: real
  family :: string

text \<open>The part of the state of a 2D drawing context that the code writes.\<close>

record ctxState =
  font :: cssFont
  textBaseline :: string
  fillStyle :: string
  shadowColor :: string
  shadowBlur :: real
  shadowOffsetX :: real
  shadowOffsetY :: real
  globalAlpha :: real

definition initialState :: ctxState where
  "initialState =
     \<lparr>font = \<lparr>weight = 400, px = 10, family = ''sans-serif''\<rparr>,
      textBaseline = ''alphabetic'', fillStyle = ''#000000'',
      shadowColor = ''rgba(0, 0, 0, 0)'', shadowBlur = 0, shadowOffsetX = 0, shadowOffsetY = 0,
      globalAlpha = 1\<rparr>"

text \<open>
  What was drawn, in order, each call with its arguments and the state of the context
  at the call: \<^verbatim>\<open>drawImage\<close> with a destination point, with a destination
  rectangle, and with a source and a destination rectangle, and \<^verbatim>\<open>fillText\<close>.
\<close>

datatype drawOp =
    DrawImage3 image jsnum jsnum ctxState
  | DrawImage5 image jsnum jsnum jsnum jsnum ctxState
  | DrawImage9 image jsnum jsnum jsnum jsnum jsnum jsnum jsnum jsnum ctxState
  | FillText string real real ctxState

fun isText :: "drawOp \<Rightarrow> bool" where
  "isText (FillText s x y st) = True"
| "isText _ = False"

record canvas =
  width :: "32 word"
  height :: "32 word"
  ctx :: ctxState
  drawn :: "drawOp list"

text \<open>
  The picture a canvas encodes with \<^verbatim>\<open>toDataURL('image/png')\<close>: its size and what was
  drawn on it.
\<close>

record picture =
  pixelWidth :: "32 word"
  pixelHeight :: "32 word"
  content :: "drawOp list"

definition toDataURL :: "canvas \<Rightarrow> picture" where
  "toDataURL c = \<lparr>pixelWidth = width c, pixelHeight = height c, content = drawn c\<rparr>"

text \<open>
  The width and the height of a canvas are unsigned 32-bit integers: a number assigned
  to them is cut to its integer part and taken modulo \<open>2^32\<close>, and what is not finite
  becomes 0.
\<close>

definition toUnsignedLong :: "jsnum \<Rightarrow> 32 word" where
  "toUnsignedLong v =
     (case v of
        Fin x \<Rightarrow> word_of_int (if 0 \<le> x then \<lfloor>x\<rfloor> else \<lceil>x\<rceil>)
      | _ \<Rightarrow> 0)"

definition fromWord :: "32 word \<Rightarrow> real" where
  "fromWord w = real (unat w)"

text \<open>
  What the code asks of its surroundings: decoding the image behind a source string
  (\<open>None\<close> when the image's \<^verbatim>\<open>onerror\<close> fires), whether a new canvas gives a 2D
  context, the width \<^verbatim>\<open>measureText\<close> reports for a text in a font, and the conversion
  \<^verbatim>\<open>Number\<close> of a string.
\<close>

record browser =
  loadImage :: "string \<Rightarrow> image option"
  hasContext2d :: bool
  measureText :: "cssFont \<Rightarrow> string \<Rightarrow> real"
  jsNumber :: "string \<Rightarrow> jsnum"

datatype rejection =
    NoCanvasContext
  | InvalidAspectRatioFormat
  | ImageLoadError

definition newCanvas :: canvas where
  "newCanvas = \<lparr>width = 300, height = 150, ctx = initialState, drawn = []\<rparr>"

definition fillText :: "string \<Rightarrow> real \<Rightarrow> real \<Rightarrow> canvas \<Rightarrow> canvas" where
  "fillText s x y c = c\<lparr>drawn := drawn c @ [FillText s x y (ctx c)]\<rparr>"

definition setFont :: "cssFont \<Rightarrow> canvas \<Rightarrow> canvas" where
  "setFont f c = c\<lparr>ctx := (ctx c)\<lparr>font := f\<rparr>\<rparr>"

definition setFillStyle :: "string \<Rightarrow> canvas \<Rightarrow> canvas" where
  "setFillStyle s c = c\<lparr>ctx := (ctx c)\<lparr>fillStyle := s\<rparr>\<rparr>"

definition setShadow :: "string \<Rightarrow> real \<Rightarrow> real \<Rightarrow> real \<Rightarrow> canvas \<Rightarrow> canvas" where
  "setShadow color blur offsetX offsetY c =
     c\<lparr>ctx := (ctx c)\<lparr>shadowColor := color, shadowBlur := blur,
                       shadowOffsetX := offsetX, shadowOffsetY := offsetY\<rparr>\<rparr>"

subsection \<open>applyTitle\<close>

record titlePart =
  partText :: string
  partColor :: string

record SubtitleOptions =
  subtitleText :: string
  subtitleColor :: string

text \<open>
  \<^verbatim>\<open>const [targetW, targetH] = aspectRatio.split(':').map(Number)\<close>: the first two
  pieces as numbers, \<^verbatim>\<open>undefined\<close> where there is no such piece.
\<close>

definition targetOf :: "browser \<Rightarrow> string \<Rightarrow> jsnum option \<times> jsnum option" where
  "targetOf b aspectRatio =
     (let pieces = map (jsNumber b) (split CHR '':'' aspectRatio)
      in (element pieces 0, element pieces 1))"

text \<open>
  The crop rectangle \<open>(sourceX, sourceY, sourceWidth, sourceHeight)\<close> for an image and
  a target ratio, every operation rounded to a double.
\<close>

definition cropRect :: "image \<Rightarrow> jsnum \<Rightarrow> jsnum \<Rightarrow> jsnum \<times> jsnum \<times> jsnum \<times> jsnum" where
  "cropRect baseImage targetW targetH =
     (let targetRatio = div64 targetW targetH;
          originalWidth = Fin (fromWord (naturalWidth baseImage));
          originalHeight = Fin (fromWord (naturalHeight baseImage));
          originalRatio = div64 originalWidth originalHeight
      in if jgt originalRatio targetRatio then
           (let sourceWidth = mul64 originalHeight targetRatio;
                sourceX = div64 (sub64 originalWidth sourceWidth) (Fin 2)
            in (sourceX, Fin 0, sourceWidth, originalHeight))
         else if jlt originalRatio targetRatio then
           (let sourceHeight = div64 originalWidth targetRatio;
                sourceY = div64 (sub64 originalHeight sourceHeight) (Fin 2)
            in (Fin 0, sourceY, originalWidth, sourceHeight))
         else (Fin 0, Fin 0, originalWidth, originalHeight))"

text \<open>
  The canvas after the aspect ratio block: sized to the crop, with the cropped part of
  the image drawn over all of it.
\<close>

definition croppedCanvas :: "image \<Rightarrow> jsnum \<Rightarrow> jsnum \<Rightarrow> canvas" where
  "croppedCanvas baseImage targetW targetH =
     (case cropRect baseImage targetW targetH of
        (sourceX, sourceY, sourceWidth, sourceHeight) \<Rightarrow>
          (let c = newCanvas\<lparr>width := toUnsignedLong sourceWidth,
                             height := toUnsignedLong sourceHeight\<rparr>
           in c\<lparr>drawn := drawn c @
                 [DrawImage9 baseImage sourceX sourceY sourceWidth sourceHeight
                    (Fin 0) (Fin 0) (Fin (fromWord (width c))) (Fin (fromWord (height c))) (ctx c)]\<rparr>))"

definition validPartsOf :: "titlePart list \<Rightarrow> titlePart list" where
  "validPartsOf titleParts = filter (\<lambda>p. partText p \<noteq> [] \<and> trim (partText p) \<noteq> []) titleParts"

definition fullTextOf :: "titlePart list \<Rightarrow> string" where
  "fullTextOf validParts = join (map (\<lambda>p. toUpperCase (partText p)) validParts)"

definition titleFont :: "nat \<Rightarrow> string \<Rightarrow> cssFont" where
  "titleFont fontSize fontFamily = \<lparr>weight = 800, px = real fontSize, family = fontFamily\<rparr>"

text \<open>
  The search for the font size of the title: the \<^verbatim>\<open>while (fontSize > 10)\<close> loop,
  entered with \<open>fontSize = 200\<close>.
\<close>

function fitFontSize :: "browser \<Rightarrow> string \<Rightarrow> string \<Rightarrow> real \<Rightarrow> nat \<Rightarrow> nat" where
  "fitFontSize b fontFamily fullText maxWidth fontSize =
     (if 10 < fontSize then
        (if measureText b (titleFont fontSize fontFamily) fullText \<le> maxWidth then fontSize
         else fitFontSize b fontFamily fullText maxWidth (fontSize - 1))
      else fontSize)"
  by pat_completeness auto
termination
  by (relation "measure (\<lambda>(b, fontFamily, fullText, maxWidth, fontSize). fontSize)") auto

declare fitFontSize.simps [simp del]

definition titleFontSizeOf :: "browser \<Rightarrow> string \<Rightarrow> titlePart list \<Rightarrow> 32 word \<Rightarrow> nat" where
  "titleFontSizeOf b fontFamily validParts canvasWidth =
     (let fullText = fullTextOf validParts;
          maxWidth = fromWord canvasWidth - 80
      in fitFontSize b fontFamily fullText maxWidth 200)"

text \<open>One round of \<^verbatim>\<open>validParts.forEach\<close>: the canvas and \<open>currentX\<close> before and after.\<close>

definition drawPart :: "browser \<Rightarrow> nat \<Rightarrow> nat \<Rightarrow> canvas \<times> real \<Rightarrow> titlePart \<times> nat \<Rightarrow> canvas \<times> real" where
  "drawPart b titleFontSize count acc item =
     (case (acc, item) of ((c0, currentX), (part, index)) \<Rightarrow>
        (let y = 25;
             text' = toUpperCase (partText part);
             depth = max 2 (nat \<lceil>real titleFontSize / 35\<rceil>);
             c1 = setFillStyle ''rgba(0, 0, 0, 0.6)'' c0;
             c2 = foldl (\<lambda>c i. fillText text' (currentX + real i) (y + real i) c) c1 [1 ..< depth + 1];
             shadowOffset = max 2 (real titleFontSize / 40);
             c3 = setShadow ''rgba(0, 0, 0, 0.75)'' (max 5 (real titleFontSize / 15))
                    shadowOffset shadowOffset c2;
             c4 = setFillStyle (partColor part) c3;
             c5 = fillText text' currentX y c4;
             c6 = setShadow ''transparent'' 0 0 0 c5;
             x1 = currentX + measureText b (font (ctx c6)) text';
             x2 = (if index < count - 1 then x1 + measureText b (font (ctx c6)) '' '' else x1)
         in (c6, x2)))"

text \<open>The title block, entered when there is a title: the canvas and the font size.\<close>

definition drawTitle :: "browser \<Rightarrow> string \<Rightarrow> titlePart list \<Rightarrow> canvas \<Rightarrow> canvas \<times> nat" where
  "drawTitle b fontFamily validParts c0 =
     (let fullText = fullTextOf validParts;
          titleFontSize = titleFontSizeOf b fontFamily validParts (width c0);
          c1 = setFont (titleFont titleFontSize fontFamily) c0;
          c2 = c1\<lparr>ctx := (ctx c1)\<lparr>textBaseline := ''top''\<rparr>\<rparr>;
          totalWidth = measureText b (font (ctx c2)) fullText;
          currentX = (fromWord (width c2) - totalWidth) / 2;
          count = length validParts
      in (fst (foldl (drawPart b titleFontSize count) (c2, currentX) (zip validParts [0 ..< count])),
          titleFontSize))"

text \<open>
  The subtitle block, entered when there is a subtitle; \<open>title\<close> is the font size of
  the title when there is one.
\<close>

definition drawSubtitle :: "browser \<Rightarrow> string \<Rightarrow> SubtitleOptions \<Rightarrow> nat option \<Rightarrow> canvas \<Rightarrow> canvas" where
  "drawSubtitle b fontFamily subtitleOptions title c0 =
     (let text' = subtitleText subtitleOptions;
          baseSize = (case title of Some titleFontSize \<Rightarrow> real titleFontSize
                      | None \<Rightarrow> fromWord (height c0) * 0.1);
          subtitleFontSize = max 20 (baseSize * 0.4);
          c1 = setFont \<lparr>weight = 600, px = subtitleFontSize, family = fontFamily\<rparr> c0;
          subtitleWidth = measureText b (font (ctx c1)) text';
          subtitleX = (fromWord (width c1) - subtitleWidth) / 2;
          subtitleY = 25 + (case title of Some titleHeight \<Rightarrow> real titleHeight + (real titleHeight * 0.1)
                            | None \<Rightarrow> 0);
          c2 = setShadow ''rgba(0, 0, 0, 0.8)'' 5 2 2 c1;
          c3 = setFillStyle (subtitleColor subtitleOptions) c2;
          c4 = fillText text' subtitleX subtitleY c3
      in setShadow ''transparent'' 0 0 0 c4)"

definition applyTitle ::
  "browser \<Rightarrow> string \<Rightarrow> titlePart list \<Rightarrow> string \<Rightarrow> SubtitleOptions option \<Rightarrow> string
     \<Rightarrow> rejection + picture" where
  "applyTitle b baseImageSrc titleParts fontFamily subtitleOptions aspectRatio =
     (case loadImage b baseImageSrc of
        None \<Rightarrow> Inl ImageLoadError
      | Some baseImage \<Rightarrow>
          if \<not> hasContext2d b then Inl NoCanvasContext
          else
            (case targetOf b aspectRatio of (targetW, targetH) \<Rightarrow>
               if falsy targetW \<or> falsy targetH then Inl InvalidAspectRatioFormat
               else
                 (let c0 = croppedCanvas baseImage (toNumber targetW) (toNumber targetH);
                      validParts = validPartsOf titleParts;
                      hasTitle = (0 < length validParts);
                      hasSubtitle = (case subtitleOptions of None \<Rightarrow> False
                                     | Some s \<Rightarrow> trim (subtitleText s) \<noteq> [])
                  in if \<not> hasTitle \<and> \<not> hasSubtitle then Inr (toDataURL c0)
                     else
                       (let (c1, title) =
                              (if hasTitle then
                                 (case drawTitle b fontFamily validParts c0 of
                                    (c, titleFontSize) \<Rightarrow> (c, Some titleFontSize))
                               else (c0, None));
                            c2 = (case subtitleOptions of
                                    Some s \<Rightarrow> if hasSubtitle then drawSubtitle b fontFamily s title c1 else c1
                                  | None \<Rightarrow> c1)
                        in Inr (toDataURL c2)))))"

text \<open>
  A canvas \<open>c'\<close> that is the canvas \<open>c\<close> with only text drawn on top: the same size,
  and what \<open>c\<close> had drawn followed by calls of \<^verbatim>\<open>fillText\<close>.
\<close>

definition textOnly :: "canvas \<Rightarrow> canvas \<Rightarrow> bool" where
  "textOnly c c' \<longleftrightarrow>
     width c' = width c \<and> height c' = height c
     \<and> (\<exists>texts. drawn c' = drawn c @ texts \<and> list_all isText texts)"

subsection \<open>applyWatermark\<close>

text \<open>
  A file: its name and type, the data URL a \<^verbatim>\<open>FileReader\<close> reads from it (\<open>None\<close>
  when the reader's \<^verbatim>\<open>onerror\<close> fires), and the image it decodes to when it is handed
  to an image element as an object URL (\<open>None\<close> when it does not decode).
\<close>

record jsFile =
  fileName :: string
  fileType :: string
  readAsDataURL :: "string option"
  decoded :: "image option"

datatype WatermarkPosition = topLeft | topRight | bottomLeft | bottomRight

text \<open>
  \<^verbatim>\<open>ctx.globalAlpha = opacity\<close>: a value that is not a finite number from 0 to 1 is
  ignored.
\<close>

definition setGlobalAlpha :: "jsnum \<Rightarrow> canvas \<Rightarrow> canvas" where
  "setGlobalAlpha opacity c =
     (case opacity of
        Fin a \<Rightarrow> if 0 \<le> a \<and> a \<le> 1 then c\<lparr>ctx := (ctx c)\<lparr>globalAlpha := a\<rparr>\<rparr> else c
      | _ \<Rightarrow> c)"

text \<open>
  The rectangle \<open>(x, y, watermarkWidth, watermarkHeight)\<close> the watermark is drawn into,
  on a canvas of the size of the base image.
\<close>

definition watermarkRect ::
  "image \<Rightarrow> image \<Rightarrow> WatermarkPosition \<Rightarrow> jsnum \<Rightarrow> jsnum \<times> jsnum \<times> jsnum \<times> jsnum" where
  "watermarkRect baseImage watermarkImage position size' =
     (let canvasWidth = Fin (fromWord (naturalWidth baseImage));
          canvasHeight = Fin (fromWord (naturalHeight baseImage));
          watermarkAspectRatio =
            jdiv (Fin (fromWord (naturalWidth watermarkImage))) (Fin (fromWord (naturalHeight watermarkImage)));
          watermarkWidth = jmul (Fin (fromWord (naturalWidth baseImage))) size';
          watermarkHeight = jdiv watermarkWidth watermarkAspectRatio;
          padding = Fin 20;
          (x, y) =
            (case position of
               topLeft \<Rightarrow> (padding, padding)
             | topRight \<Rightarrow> (jsub (jsub canvasWidth watermarkWidth) padding, padding)
             | bottomLeft \<Rightarrow> (padding, jsub (jsub canvasHeight watermarkHeight) padding)
             | bottomRight \<Rightarrow>
                 (jsub (jsub canvasWidth watermarkWidth) padding,
                  jsub (jsub canvasHeight watermarkHeight) padding))
      in (x, y, watermarkWidth, watermarkHeight))"

text \<open>
  \<^verbatim>\<open>applyWatermark\<close>; a position or a size that is not given (\<open>None\<close>) takes its
  default, the bottom right corner and 0.15.
\<close>

definition applyWatermark ::
  "browser \<Rightarrow> string \<Rightarrow> jsFile \<Rightarrow> jsnum \<Rightarrow> WatermarkPosition option \<Rightarrow> jsnum option
     \<Rightarrow> rejection + picture" where
  "applyWatermark b baseImageSrc watermarkFile opacity positionArg sizeArg =
     (let position = (case positionArg of None \<Rightarrow> bottomRight | Some p \<Rightarrow> p);
          size' = (case sizeArg of None \<Rightarrow> Fin 0.15 | Some s \<Rightarrow> s)
      in case loadImage b baseImageSrc of
           None \<Rightarrow> Inl ImageLoadError
         | Some baseImage \<Rightarrow>
             (case decoded watermarkFile of
                None \<Rightarrow> Inl ImageLoadError
              | Some watermarkImage \<Rightarrow>
                  if \<not> hasContext2d b then Inl NoCanvasContext
                  else
                    (let c0 = newCanvas\<lparr>width := naturalWidth baseImage,
                                        height := naturalHeight baseImage\<rparr>;
                         c1 = c0\<lparr>drawn := drawn c0 @ [DrawImage3 baseImage (Fin 0) (Fin 0) (ctx c0)]\<rparr>;
                         c2 = setGlobalAlpha opacity c1
                     in case watermarkRect baseImage watermarkImage position size' of
                          (x, y, watermarkWidth, watermarkHeight) \<Rightarrow>
                            Inr (toDataURL
                              (c2\<lparr>drawn := drawn c2 @
                                  [DrawImage5 watermarkImage x y watermarkWidth watermarkHeight (ctx c2)]\<rparr>)))))"

section \<open>Remote enhancement (geminiService)\<close>

text \<open>
  What the code throws inside \<^verbatim>\<open>enhanceImage\<close>, by the message of the error: the
  file could not be read as Base64, the request was blocked for a reason, the reply was
  text and no image, the reply held no image, or an error of the remote call with its
  own message. A thrown value is such an error or a value that is no \<^verbatim>\<open>Error\<close>
  (the event of a failing file reader).
\<close>

datatype failure =
    FailedToReadFile
  | RequestBlocked string
  | TextInsteadOfImage string
  | NoImageReturned
  | CallFailed string

datatype thrown = ErrorObject failure | OtherValue

text \<open>
  What \<^verbatim>\<open>enhanceImage\<close> rejects with: an error whose message is the prefix of the
  service followed by the message of the error caught, or the error with the fixed
  message for an unknown failure.
\<close>

datatype userError = GeminiApiError failure | UnknownError

text \<open>\<^verbatim>\<open>fileToBase64\<close>.\<close>

definition fileToBase64 :: "jsFile \<Rightarrow> thrown + (string \<times> string)" where
  "fileToBase64 file =
     (case readAsDataURL file of
        None \<Rightarrow> Inl OtherValue
      | Some result \<Rightarrow>
          (case element (split CHR '','' result) 1 of
             None \<Rightarrow> Inl (ErrorObject FailedToReadFile)
           | Some base64Data \<Rightarrow>
               if base64Data \<noteq> [] then Inr (base64Data, fileType file)
               else Inl (ErrorObject FailedToReadFile)))"

datatype style = default | solid | gradient | blur | upload

record BackgroundOptions =
  style :: style
  color1 :: "string option"
  color2 :: "string option"
  backgroundImage :: "jsFile option"

text \<open>
  The instruction on the background that the prompt carries, and the prompt: the fixed
  wording around the instruction and the aspect ratio is left out.
\<close>

datatype backgroundInstruction =
    SolidColor string
  | GradientColors string string
  | BlurOriginal
  | UseSecondImage
  | DefaultGradient

record prompt =
  instruction :: backgroundInstruction
  ratio :: string

text \<open>\<^verbatim>\<open>c || fallback\<close> on a string that may be missing.\<close>

definition orElse :: "string option \<Rightarrow> string \<Rightarrow> string" where
  "orElse c fallback = (case c of None \<Rightarrow> fallback | Some s \<Rightarrow> if s = [] then fallback else s)"

definition generatePrompt :: "BackgroundOptions \<Rightarrow> string \<Rightarrow> prompt" where
  "generatePrompt options aspectRatio =
     \<lparr>instruction =
        (case style options of
           solid \<Rightarrow> SolidColor (orElse (color1 options) ''#FFFFFF'')
         | gradient \<Rightarrow> GradientColors (orElse (color1 options) ''#4ade80'') (orElse (color2 options) ''#3b82f6'')
         | blur \<Rightarrow> BlurOriginal
         | upload \<Rightarrow> UseSecondImage
         | default \<Rightarrow> DefaultGradient),
      ratio = aspectRatio\<rparr>"

text \<open>The parts of a request, and the reply of the model.\<close>

datatype requestPart = InlineData string string | Text prompt

record blob =
  data :: string
  mimeType :: string

record responsePart =
  inlineData :: "blob option"
  responseText :: "string option"

record candidate =
  finishReason :: "string option"
  contentParts :: "responsePart list option"

record response =
  candidates :: "candidate list option"

text \<open>
  The remote call \<^verbatim>\<open>ai.models.generateContent\<close> with the parts of the request (model
  name and configuration are fixed): it gives a reply or throws.
\<close>

type_synonym service = "requestPart list \<Rightarrow> thrown + response"

text \<open>The test on the first candidate that makes the request count as blocked.\<close>

definition blockedReason :: "candidate \<Rightarrow> string option" where
  "blockedReason c =
     (case finishReason c of
        None \<Rightarrow> None
      | Some r \<Rightarrow> if r \<noteq> [] \<and> r \<noteq> ''STOP'' \<and> r \<noteq> ''MAX_TOKENS'' then Some r else None)"

text \<open>
  The loop over the parts that returns at the first part with inline data, and the
  texts of the parts that have a text that is not empty,
  \<^verbatim>\<open>parts.filter(p => p.text).map(p => p.text)\<close>.
\<close>

fun firstInlineData :: "responsePart list \<Rightarrow> blob option" where
  "firstInlineData [] = None"
| "firstInlineData (part # parts) =
     (case inlineData part of Some b \<Rightarrow> Some b | None \<Rightarrow> firstInlineData parts)"

fun textPartsOf :: "responsePart list \<Rightarrow> string list" where
  "textPartsOf [] = []"
| "textPartsOf (part # parts) =
     (case responseText part of
        Some t \<Rightarrow> if t \<noteq> [] then t # textPartsOf parts else textPartsOf parts
      | None \<Rightarrow> textPartsOf parts)"

text \<open>What the code makes of a reply: the image data, or the error it throws.\<close>

definition readResponse :: "response \<Rightarrow> thrown + string" where
  "readResponse r =
     (case candidates r of
        Some (c # cs) \<Rightarrow>
          (case blockedReason c of
             Some reason \<Rightarrow> Inl (ErrorObject (RequestBlocked reason))
           | None \<Rightarrow>
               (case contentParts c of
                  Some parts \<Rightarrow>
                    (case firstInlineData parts of
                       Some b \<Rightarrow> Inr (data b)
                     | None \<Rightarrow>
                         (let textParts = textPartsOf parts
                          in if 0 < length textParts
                             then Inl (ErrorObject (TextInsteadOfImage (trim (join textParts))))
                             else Inl (ErrorObject NoImageReturned)))
                | None \<Rightarrow> Inl (ErrorObject NoImageReturned)))
      | _ \<Rightarrow> Inl (ErrorObject NoImageReturned))"

text \<open>
  The parts of the request: the product image, the background image when the style is
  an uploaded background and one is given, and the prompt. Reading a file may throw.
\<close>

definition buildParts :: "jsFile \<Rightarrow> BackgroundOptions \<Rightarrow> string \<Rightarrow> thrown + requestPart list" where
  "buildParts file options aspectRatio =
     (case fileToBase64 file of
        Inl e \<Rightarrow> Inl e
      | Inr (productBase64, productMimeType) \<Rightarrow>
          (let prompt = generatePrompt options aspectRatio;
               parts = [InlineData productBase64 productMimeType]
           in case (if style options = upload then backgroundImage options else None) of
                None \<Rightarrow> Inr (parts @ [Text prompt])
              | Some bg \<Rightarrow>
                  (case fileToBase64 bg of
                     Inl e \<Rightarrow> Inl e
                   | Inr (backgroundBase64, backgroundMimeType) \<Rightarrow>
                       Inr (parts @ [InlineData backgroundBase64 backgroundMimeType] @ [Text prompt]))))"

text \<open>
  The body of the \<^verbatim>\<open>try\<close> block: its outcome and the requests it sent to the
  service, in order.
\<close>

definition tryEnhance ::
  "service \<Rightarrow> jsFile \<Rightarrow> BackgroundOptions \<Rightarrow> string \<Rightarrow> (thrown + string) \<times> requestPart list list" where
  "tryEnhance generateContent file options aspectRatio =
     (case buildParts file options aspectRatio of
        Inl e \<Rightarrow> (Inl e, [])
      | Inr parts \<Rightarrow>
          (case generateContent parts of
             Inl e \<Rightarrow> (Inl e, [parts])
           | Inr r \<Rightarrow> (readResponse r, [parts])))"

text \<open>
  \<^verbatim>\<open>enhanceImage\<close>: the \<^verbatim>\<open>try\<close> block, and the \<^verbatim>\<open>catch\<close> block that wraps what
  was thrown. It gives the image data or the error it rejects with, and the requests
  sent.
\<close>

definition enhanceImage ::
  "service \<Rightarrow> jsFile \<Rightarrow> BackgroundOptions \<Rightarrow> string \<Rightarrow> (userError + string) \<times> requestPart list list" where
  "enhanceImage generateContent file options aspectRatio =
     (case tryEnhance generateContent file options aspectRatio of
        (Inr imageData, sent) \<Rightarrow> (Inr imageData, sent)
      | (Inl (ErrorObject f), sent) \<Rightarrow> (Inl (GeminiApiError f), sent)
      | (Inl OtherValue, sent) \<Rightarrow> (Inl UnknownError, sent))"

section \<open>Properties of the rounding to a double\<close>

subsection \<open>The spacing of the doubles\<close>

lemma ulpDown_pos: "0 < u \<Longrightarrow> 0 < ulpDown n u a"
  by (induction n arbitrary: u) simp_all

lemma ulpDown_form: "\<exists>k\<le>n. ulpDown n u a = u / 2 ^ k"
proof (induction n arbitrary: u)
  case 0
  then show ?case by simp
next
  case (Suc n)
  show ?case
  proof (cases "a < 2 ^ 52 * u")
    case True
    from Suc [of "u / 2"] obtain k where "k \<le> n" "ulpDown n (u / 2) a = u / 2 / 2 ^ k" by blast
    with True have "Suc k \<le> Suc n" "ulpDown (Suc n) u a = u / 2 ^ Suc k" by simp_all
    then show ?thesis by blast
  next
    case False
    then have "ulpDown (Suc n) u a = u / 2 ^ 0" by simp
    then show ?thesis by blast
  qed
qed

lemma ulpDown_lower: "2 ^ 52 * ulpDown n u a \<le> a \<or> ulpDown n u a = u / 2 ^ n"
proof (induction n arbitrary: u)
  case 0
  then show ?case by simp
next
  case (Suc n)
  show ?case
  proof (cases "a < 2 ^ 52 * u")
    case True
    with Suc [of "u / 2"] show ?thesis by auto
  next
    case False
    then show ?thesis by simp
  qed
qed

lemma ulpDown_upper: "a < 2 ^ 53 * u \<Longrightarrow> a < 2 ^ 53 * ulpDown n u a"
proof (induction n arbitrary: u)
  case 0
  then show ?case by simp
next
  case (Suc n)
  show ?case
  proof (cases "a < 2 ^ 52 * u")
    case True
    then have "a < 2 ^ 53 * (u / 2)" by simp
    from Suc.IH [OF this] True show ?thesis by simp
  next
    case False
    with Suc.prems show ?thesis by simp
  qed
qed

lemma ulpUp_pos: "0 < u \<Longrightarrow> 0 < ulpUp n u a"
  by (induction n arbitrary: u) simp_all

lemma ulpUp_form: "\<exists>k\<le>n. ulpUp n u a = u * 2 ^ k"
proof (induction n arbitrary: u)
  case 0
  then show ?case by simp
next
  case (Suc n)
  show ?case
  proof (cases "2 ^ 53 * u \<le> a")
    case True
    from Suc [of "2 * u"] obtain k where "k \<le> n" "ulpUp n (2 * u) a = 2 * u * 2 ^ k" by blast
    with True have "Suc k \<le> Suc n" "ulpUp (Suc n) u a = u * 2 ^ Suc k" by simp_all
    then show ?thesis by blast
  next
    case False
    then have "ulpUp (Suc n) u a = u * 2 ^ 0" by simp
    then show ?thesis by blast
  qed
qed

lemma ulpUp_lower: "2 ^ 52 * u \<le> a \<Longrightarrow> 2 ^ 52 * ulpUp n u a \<le> a"
proof (induction n arbitrary: u)
  case 0
  then show ?case by simp
next
  case (Suc n)
  show ?case
  proof (cases "2 ^ 53 * u \<le> a")
    case True
    then have "2 ^ 52 * (2 * u) \<le> a" by simp
    from Suc.IH [OF this] True show ?thesis by simp
  next
    case False
    with Suc.prems show ?thesis by simp
  qed
qed

lemma ulpUp_upper: "a < 2 ^ 53 * ulpUp n u a \<or> ulpUp n u a = u * 2 ^ n"
proof (induction n arbitrary: u)
  case 0
  then show ?case by simp
next
  case (Suc n)
  show ?case
  proof (cases "2 ^ 53 * u \<le> a")
    case True
    with Suc [of "2 * u"] show ?thesis by auto
  next
    case False
    then show ?thesis by simp
  qed
qed

lemma ulp_pos: "0 < ulp a"
  by (simp add: ulp_def ulpUp_pos ulpDown_pos del: ulpUp.simps ulpDown.simps)

lemma ulp_form: "\<exists>k\<le>2045. ulp a = 2 ^ k / 2 ^ 1074"
proof (cases "2 ^ 53 \<le> a")
  case True
  from ulpUp_form [of 971 1 a] obtain j where j: "j \<le> 971" "ulpUp 971 1 a = 2 ^ j" by auto
  have "(2::real) ^ (1074 + j) / 2 ^ 1074 = 2 ^ j"
    by (simp only: power_add nonzero_mult_div_cancel_left power_not_zero [of "2::real" 1074] ) simp
  with j True have "1074 + j \<le> 2045" "ulp a = 2 ^ (1074 + j) / 2 ^ 1074"
    by (simp_all add: ulp_def)
  then show ?thesis by blast
next
  case False
  from ulpDown_form [of 1074 1 a] obtain j where j: "j \<le> 1074" "ulpDown 1074 1 a = 1 / 2 ^ j" by auto
  from j(1) have "(2::real) ^ 1074 = 2 ^ (1074 - j) * 2 ^ j"
    by (simp only: power_add [symmetric]) simp
  then have "(2::real) ^ (1074 - j) / 2 ^ 1074 = 1 / 2 ^ j"
    by (simp only: ) (simp add: field_simps)
  with j False have "1074 - j \<le> 2045" "ulp a = 2 ^ (1074 - j) / 2 ^ 1074"
    by (simp_all add: ulp_def)
  then show ?thesis by blast
qed

lemma ulp_lower: "2 ^ 52 * ulp a \<le> a \<or> ulp a = 1 / 2 ^ 1074"
proof (cases "2 ^ 53 \<le> a")
  case True
  then have "2 ^ 52 * 1 \<le> a" by simp
  from ulpUp_lower [OF this, of 971] True show ?thesis by (simp only: ulp_def if_True) simp
next
  case False
  with ulpDown_lower [of 1074 1 a] show ?thesis by (simp only: ulp_def if_False) 
qed

lemma ulp_upper: "a < 2 ^ 53 * ulp a \<or> ulp a = 2 ^ 971"
proof (cases "2 ^ 53 \<le> a")
  case True
  with ulpUp_upper [of a 971 1] show ?thesis by (simp only: ulp_def if_True mult_1)
next
  case False
  then have "a < 2 ^ 53 * 1" by simp
  from ulpDown_upper [OF this, of 1074] False show ?thesis by (simp only: ulp_def if_False) simp
qed

lemma ulp_small: "a < 2 ^ 53 \<Longrightarrow> \<exists>j\<le>1074. ulp a = 1 / 2 ^ j"
  using ulpDown_form [of 1074 1 a] by (simp only: ulp_def) auto

lemma spacing_step: "k < k' \<Longrightarrow> 2 * ((2::real) ^ k / 2 ^ 1074) \<le> 2 ^ k' / 2 ^ 1074"
proof -
  assume "k < k'"
  then have "Suc k \<le> k'" by simp
  then have "(2::real) ^ Suc k \<le> 2 ^ k'" by (intro power_increasing) simp_all
  then have "(2::real) ^ Suc k / 2 ^ 1074 \<le> 2 ^ k' / 2 ^ 1074" by (intro divide_right_mono) simp_all
  then show ?thesis by simp
qed

lemma ulp_lower_if:
  assumes "ulp a = 2 ^ k / 2 ^ 1074" and "0 < k"
  shows "2 ^ 52 * ulp a \<le> a"
proof -
  have "ulp a \<noteq> 1 / 2 ^ 1074"
  proof
    assume "ulp a = 1 / 2 ^ 1074"
    with assms(1) have "(2::real) ^ k = 2 ^ 0" by simp
    then have "k = 0" by (simp only: power_inject_exp [of "2::real"])
    with assms(2) show False by simp
  qed
  with ulp_lower [of a] show ?thesis by blast
qed

lemma ulp_upper_if:
  assumes "ulp a = 2 ^ k / 2 ^ 1074" and "k < 2045"
  shows "a < 2 ^ 53 * ulp a"
proof -
  have "ulp a \<noteq> 2 ^ 971"
  proof
    assume "ulp a = 2 ^ 971"
    with assms(1) have "(2::real) ^ k = 2 ^ 971 * 2 ^ 1074" by (simp add: field_simps)
    also have "\<dots> = 2 ^ 2045" by (simp only: power_add [symmetric]) simp
    finally have "k = 2045" by (simp only: power_inject_exp [of "2::real"])
    with assms(2) show False by simp
  qed
  with ulp_upper [of a] show ?thesis by blast
qed

lemma ulp_unique:
  assumes "k \<le> 2045" and "u = 2 ^ k / 2 ^ 1074"
    and "2 ^ 52 * u \<le> a \<or> k = 0" and "a < 2 ^ 53 * u \<or> k = 2045"
  shows "ulp a = u"
proof -
  from ulp_form [of a] obtain k' where k': "k' \<le> 2045" "ulp a = 2 ^ k' / 2 ^ 1074" by blast
  have "k' = k"
  proof (rule ccontr)
    assume "k' \<noteq> k"
    then consider "k' < k" | "k < k'" by linarith
    then show False
    proof cases
      case 1
      with assms(1,3) have "2 ^ 52 * u \<le> a" by auto
      moreover from 1 assms(1) have "k' < 2045" by simp
      from ulp_upper_if [OF k'(2) this] have "a < 2 ^ 53 * ulp a" .
      moreover from spacing_step [OF 1] k'(2) assms(2) have "2 * ulp a \<le> u" by simp
      ultimately show False by simp
    next
      case 2
      then have "0 < k'" by simp
      from ulp_lower_if [OF k'(2) this] have "2 ^ 52 * ulp a \<le> a" .
      moreover from 2 k'(1) assms(4) have "a < 2 ^ 53 * u" by auto
      moreover from spacing_step [OF 2] k'(2) assms(2) have "2 * u \<le> ulp a" by simp
      ultimately show False by simp
    qed
  qed
  with k'(2) assms(2) show ?thesis by simp
qed

lemma ulp_mono:
  assumes "a \<le> b"
  shows "ulp a \<le> ulp b"
proof (rule ccontr)
  assume "\<not> ulp a \<le> ulp b"
  then have lt: "ulp b < ulp a" by simp
  from ulp_form [of a] obtain k where k: "k \<le> 2045" "ulp a = 2 ^ k / 2 ^ 1074" by blast
  from ulp_form [of b] obtain k' where k': "k' \<le> 2045" "ulp b = 2 ^ k' / 2 ^ 1074" by blast
  from lt k(2) k'(2) have "(2::real) ^ k' < 2 ^ k" by (simp add: divide_less_cancel)
  then have kk: "k' < k" by (simp only: power_strict_increasing_iff [of "2::real"]) 
  then have "0 < k" by simp
  from ulp_lower_if [OF k(2) this] have "2 ^ 52 * ulp a \<le> a" .
  moreover from kk k(1) have "k' < 2045" by simp
  from ulp_upper_if [OF k'(2) this] have "b < 2 ^ 53 * ulp b" .
  moreover from spacing_step [OF kk] k(2) k'(2) have "2 * ulp b \<le> ulp a" by simp
  ultimately show False using assms by simp
qed

subsection \<open>Rounding to the nearest double\<close>

lemma roundHalfEven_error: "\<bar>of_int (roundHalfEven q) - q\<bar> \<le> 1 / 2"
proof -
  have "of_int \<lfloor>q\<rfloor> \<le> q" "q < of_int \<lfloor>q\<rfloor> + 1" by linarith+
  then show ?thesis by (auto simp: roundHalfEven_def Let_def)
qed

lemma roundHalfEven_of_int [simp]: "roundHalfEven (of_int n) = n"
  by (simp add: roundHalfEven_def)

lemma roundHalfEven_mono:
  assumes "q \<le> q'"
  shows "roundHalfEven q \<le> roundHalfEven q'"
proof -
  have b: "\<lfloor>q\<rfloor> \<le> roundHalfEven q" "roundHalfEven q \<le> \<lfloor>q\<rfloor> + 1"
    "\<lfloor>q'\<rfloor> \<le> roundHalfEven q'" "roundHalfEven q' \<le> \<lfloor>q'\<rfloor> + 1"
    by (simp_all add: roundHalfEven_def Let_def)
  from assms have "\<lfloor>q\<rfloor> \<le> \<lfloor>q'\<rfloor>" by (rule floor_mono)
  then consider "\<lfloor>q\<rfloor> < \<lfloor>q'\<rfloor>" | "\<lfloor>q\<rfloor> = \<lfloor>q'\<rfloor>" by linarith
  then show ?thesis
  proof cases
    case 1
    with b show ?thesis by linarith
  next
    case 2
    with assms show ?thesis by (auto simp: roundHalfEven_def Let_def)
  qed
qed

lemma roundHalfEven_ge: "of_int n \<le> q \<Longrightarrow> n \<le> roundHalfEven q"
  using roundHalfEven_mono [of "of_int n" q] by simp

lemma roundHalfEven_le: "q \<le> of_int n \<Longrightarrow> roundHalfEven q \<le> n"
  using roundHalfEven_mono [of q "of_int n"] by simp

lemma nearest_error: "\<bar>nearest a - a\<bar> \<le> ulp a / 2"
proof -
  have u: "0 < ulp a" by (rule ulp_pos)
  then have "nearest a - a = (of_int (roundHalfEven (a / ulp a)) - a / ulp a) * ulp a"
    by (simp add: nearest_def field_simps)
  then have "\<bar>nearest a - a\<bar> = \<bar>of_int (roundHalfEven (a / ulp a)) - a / ulp a\<bar> * ulp a"
    using u by (simp add: abs_mult)
  also have "\<dots> \<le> 1 / 2 * ulp a"
    using u roundHalfEven_error [of "a / ulp a"] by (intro mult_right_mono) simp_all
  finally show ?thesis by simp
qed

lemma nearest_relative:
  assumes "1 / 2 ^ 1022 \<le> a"
  shows "\<bar>nearest a - a\<bar> \<le> a / 2 ^ 53"
proof -
  have "2 ^ 52 * ulp a \<le> a"
  proof (rule disjE [OF ulp_lower [of a]])
    assume "ulp a = 1 / 2 ^ 1074"
    then have "2 ^ 52 * ulp a = 2 ^ 52 / (2 ^ 52 * 2 ^ 1022)"
      by (simp only: power_add [symmetric]) simp
    also have "\<dots> = 1 / 2 ^ 1022" by simp
    finally show ?thesis using assms by simp
  qed
  then have "ulp a / 2 \<le> a / 2 ^ 53" by simp
  with nearest_error [of a] show ?thesis by simp
qed

lemma nearest_tolerance:
  assumes "0 \<le> a"
  shows "\<bar>nearest a - a\<bar> \<le> a / 2 ^ 53 + 1 / 2 ^ 1075"
proof (rule disjE [OF ulp_lower [of a]])
  assume "2 ^ 52 * ulp a \<le> a"
  then have "ulp a / 2 \<le> a / 2 ^ 53" by simp
  with nearest_error [of a] show ?thesis by simp
next
  assume "ulp a = 1 / 2 ^ 1074"
  then have "ulp a / 2 = 1 / 2 ^ 1075" by simp
  with nearest_error [of a] assms show ?thesis by simp
qed

lemma nearest_nonneg: "0 \<le> a \<Longrightarrow> 0 \<le> nearest a"
proof -
  assume "0 \<le> a"
  with ulp_pos [of a] have "of_int 0 \<le> a / ulp a" by simp
  from roundHalfEven_ge [OF this] ulp_pos [of a] show ?thesis by (simp add: nearest_def)
qed

lemma nearest_0 [simp]: "nearest 0 = 0"
  using roundHalfEven_of_int [of 0] by (simp add: nearest_def del: roundHalfEven_of_int)

lemma nearest_mono:
  assumes "a \<le> b"
  shows "nearest a \<le> nearest b"
proof -
  from ulp_form [of a] obtain k where k: "k \<le> 2045" "ulp a = 2 ^ k / 2 ^ 1074" by blast
  from ulp_form [of b] obtain k' where k': "k' \<le> 2045" "ulp b = 2 ^ k' / 2 ^ 1074" by blast
  have ua: "0 < ulp a" and ub: "0 < ulp b" by (rule ulp_pos)+
  from ulp_mono [OF assms] consider "ulp a = ulp b" | "ulp a < ulp b" by linarith
  then show ?thesis
  proof cases
    case 1
    from assms ub have "a / ulp b \<le> b / ulp b" by (simp add: divide_right_mono)
    from roundHalfEven_mono [OF this] have "roundHalfEven (a / ulp b) \<le> roundHalfEven (b / ulp b)" .
    then have "(of_int (roundHalfEven (a / ulp b)) :: real) \<le> of_int (roundHalfEven (b / ulp b))"
      by simp
    with ub have "of_int (roundHalfEven (a / ulp b)) * ulp b \<le> of_int (roundHalfEven (b / ulp b)) * ulp b"
      by (intro mult_right_mono) simp_all
    with 1 show ?thesis by (simp add: nearest_def)
  next
    case 2
    then have "(2::real) ^ k / 2 ^ 1074 < 2 ^ k' / 2 ^ 1074" by (simp only: k(2) k'(2))
    then have "(2::real) ^ k < 2 ^ k'" by (simp add: divide_less_cancel)
    then have kk: "k < k'" by (simp only: power_strict_increasing_iff [of "2::real"])
    with k'(1) have "k < 2045" by simp
    from ulp_upper_if [OF k(2) this] ua have "a / ulp a \<le> of_int (2 ^ 53)"
      by (simp add: field_simps)
    from roundHalfEven_le [OF this] have "(of_int (roundHalfEven (a / ulp a)) :: real) \<le> of_int (2 ^ 53)"
      by (simp only: of_int_le_iff)
    with ua have "of_int (roundHalfEven (a / ulp a)) * ulp a \<le> of_int (2 ^ 53) * ulp a"
      by (intro mult_right_mono) simp_all
    then have 1: "nearest a \<le> 2 ^ 53 * ulp a" by (simp add: nearest_def)
    from kk have "0 < k'" by simp
    from ulp_lower_if [OF k'(2) this] ub have "of_int (2 ^ 52) \<le> b / ulp b"
      by (simp add: field_simps)
    from roundHalfEven_ge [OF this] have "(of_int (2 ^ 52) :: real) \<le> of_int (roundHalfEven (b / ulp b))"
      by (simp only: of_int_le_iff)
    with ub have "of_int (2 ^ 52) * ulp b \<le> of_int (roundHalfEven (b / ulp b)) * ulp b"
      by (intro mult_right_mono) simp_all
    then have 2: "2 ^ 52 * ulp b \<le> nearest b" by (simp add: nearest_def)
    from spacing_step [OF kk] k(2) k'(2) have "2 * ulp a \<le> ulp b" by simp
    with 1 2 show ?thesis by simp
  qed
qed

lemma nearest_fixed:
  assumes "k \<le> 2045" and "u = 2 ^ k / 2 ^ 1074"
    and "2 ^ 52 * u \<le> of_int m * u \<or> k = 0" and "of_int m * u < 2 ^ 53 * u \<or> k = 2045"
  shows "nearest (of_int m * u) = of_int m * u"
proof -
  from ulp_unique [OF assms] have "ulp (of_int m * u) = u" .
  moreover have "0 < u" unfolding assms(2) by simp
  ultimately show ?thesis by (simp add: nearest_def)
qed

lemma nearest_idem:
  assumes "0 \<le> a" and "nearest a < 2 ^ 1024"
  shows "nearest (nearest a) = nearest a"
proof -
  from ulp_form [of a] obtain k where k: "k \<le> 2045" "ulp a = 2 ^ k / 2 ^ 1074" by blast
  have u: "0 < ulp a" by (rule ulp_pos)
  let ?m = "roundHalfEven (a / ulp a)"
  have y: "nearest a = of_int ?m * ulp a" by (simp add: nearest_def)
  have low: "2 ^ 52 * ulp a \<le> of_int ?m * ulp a \<or> k = 0"
  proof (cases "k = 0")
    case False
    then have "0 < k" by simp
    from ulp_lower_if [OF k(2) this] u have "of_int (2 ^ 52) \<le> a / ulp a"
      by (simp add: field_simps)
    from roundHalfEven_ge [OF this] have "(of_int (2 ^ 52) :: real) \<le> of_int ?m"
      by (simp only: of_int_le_iff)
    with u have "of_int (2 ^ 52) * ulp a \<le> of_int ?m * ulp a"
      by (intro mult_right_mono) simp_all
    then show ?thesis by simp
  qed simp
  show ?thesis
  proof (cases "?m < 2 ^ 53")
    case True
    then have "(of_int ?m :: real) < of_int (2 ^ 53)" by (simp only: of_int_less_iff)
    with u have "of_int ?m * ulp a < 2 ^ 53 * ulp a" by simp
    then have "of_int ?m * ulp a < 2 ^ 53 * ulp a \<or> k = 2045" by simp
    from nearest_fixed [OF k low this] y show ?thesis by simp
  next
    case False
    then have ge: "2 ^ 53 \<le> ?m" by simp
    have "k < 2045"
    proof (rule ccontr)
      assume "\<not> k < 2045"
      with k have "ulp a = 2 ^ 2045 / 2 ^ 1074" by simp
      also have "(2::real) ^ 2045 = 2 ^ 971 * 2 ^ 1074" by (simp only: power_add [symmetric]) simp
      finally have "ulp a = 2 ^ 971" by simp
      moreover from ge have "(of_int (2 ^ 53) :: real) \<le> of_int ?m" by (simp only: of_int_le_iff)
      ultimately have "2 ^ 53 * 2 ^ 971 \<le> nearest a"
        using y by simp
      also have "(2::real) ^ 53 * 2 ^ 971 = 2 ^ 1024" by (simp only: power_add [symmetric]) simp
      finally show False using assms(2) by simp
    qed
    from ulp_upper_if [OF k(2) this] u have "a / ulp a \<le> of_int (2 ^ 53)"
      by (simp add: field_simps)
    from roundHalfEven_le [OF this] ge have m: "?m = 2 ^ 53" by simp
    let ?u = "2 ^ Suc k / 2 ^ 1074 :: real"
    have u2: "?u = 2 * ulp a" using k(2) by simp
    from m y have "nearest a = 2 ^ 53 * ulp a" by simp
    also have "\<dots> = of_int (2 ^ 52) * (2 * ulp a)" by simp
    finally have y2: "nearest a = of_int (2 ^ 52) * ?u" by (simp only: u2)
    from \<open>k < 2045\<close> have "Suc k \<le> 2045" by simp
    moreover have "2 ^ 52 * ?u \<le> of_int (2 ^ 52) * ?u \<or> Suc k = 0" by simp
    moreover have "of_int (2 ^ 52) * ?u < 2 ^ 53 * ?u \<or> Suc k = 2045" by simp
    ultimately have "nearest (of_int (2 ^ 52) * ?u) = of_int (2 ^ 52) * ?u"
      by (intro nearest_fixed [OF _ refl])
    then show ?thesis by (simp only: y2 [symmetric])
  qed
qed

lemma nearest_nat:
  assumes "n < 2 ^ 53"
  shows "nearest (real n) = real n"
proof -
  from assms have "real n < 2 ^ 53" by (metis of_nat_less_iff of_nat_numeral of_nat_power)
  from ulp_small [OF this] obtain j where j: "ulp (real n) = 1 / 2 ^ j" by blast
  have "real n / (1 / 2 ^ j) = of_int (int n * 2 ^ j)" by simp
  then have "roundHalfEven (real n / (1 / 2 ^ j)) = int n * 2 ^ j"
    by (simp only: roundHalfEven_of_int)
  with j show ?thesis by (simp add: nearest_def)
qed

text \<open>A double below the rounding of a number is below the number, and likewise above.\<close>

lemma nearest_less:
  assumes "0 \<le> b" and "nearest b < 2 ^ 1024" and "nearest b < nearest a"
  shows "nearest b < a"
proof (rule ccontr)
  assume "\<not> nearest b < a"
  then have "a \<le> nearest b" by simp
  from nearest_mono [OF this] nearest_idem [OF assms(1,2)] assms(3) show False by simp
qed

lemma nearest_greater:
  assumes "0 \<le> b" and "nearest b < 2 ^ 1024" and "nearest a < nearest b"
  shows "a < nearest b"
proof (rule ccontr)
  assume "\<not> a < nearest b"
  then have "nearest b \<le> a" by simp
  from nearest_mono [OF this] nearest_idem [OF assms(1,2)] assms(3) show False by simp
qed

lemma ulpDown_numeral [simp]:
  "ulpDown (numeral k) u a = (if a < 2 ^ 52 * u then ulpDown (pred_numeral k) (u / 2) a else u)"
  by (simp add: numeral_eq_Suc)

lemma ulpUp_numeral [simp]:
  "ulpUp (numeral k) u a = (if 2 ^ 53 * u \<le> a then ulpUp (pred_numeral k) (2 * u) a else u)"
  by (simp add: numeral_eq_Suc)

lemmas rounding = binary64_def nearest_def ulp_def roundHalfEven_def Let_def div64_def mul64_def sub64_def
  jsub_def jgt_def signed_inf_def


text \<open>
  One tenth, and numbers half way between two doubles, which go to the one with the even
  significand.
\<close>

lemma binary64_examples:
  "binary64 (1 / 10) = Fin (3602879701896397 / 36028797018963968)"
  "binary64 9007199254740993 = Fin 9007199254740992"
  "binary64 9007199254740995 = Fin 9007199254740996"
  "binary64 (- 9007199254740995) = Fin (- 9007199254740996)"
  by (simp_all add: rounding)

subsection \<open>Rounding in the crop of an image\<close>

lemma binary64_nonneg:
  "0 \<le> x \<Longrightarrow> binary64 x = (if 2 ^ 1024 \<le> nearest x then PosInf else Fin (nearest x))"
  by (cases "x = 0") (simp_all add: binary64_def signed_inf_def)

lemma binary64_finite: "0 \<le> x \<Longrightarrow> nearest x < 2 ^ 1024 \<Longrightarrow> binary64 x = Fin (nearest x)"
  by (simp add: binary64_nonneg)

lemma nearest_le_nat:
  assumes "x \<le> real n" and "n < 2 ^ 32"
  shows "nearest x \<le> real n"
proof -
  from assms(2) have "n < 2 ^ 53" by simp
  from nearest_mono [OF assms(1)] nearest_nat [OF this] show ?thesis by simp
qed

lemma small_finite: "x \<le> real n \<Longrightarrow> n < 2 ^ 32 \<Longrightarrow> x < 2 ^ 1024"
proof -
  assume "x \<le> real n" "n < 2 ^ 32"
  then have "x < 2 ^ 32" by (metis le_less_trans of_nat_less_iff of_nat_numeral of_nat_power)
  also have "(2::real) ^ 32 \<le> 2 ^ 1024" by (intro power_increasing) simp_all
  finally show ?thesis .
qed

lemma two_powers:
  "(2::real) ^ 51 = 2251799813685248" "(2::real) ^ 52 = 4503599627370496"
  "(2::real) ^ 53 = 9007199254740992" "(2::real) ^ 32 = 4294967296"
  "(2::real) ^ 83 = 9671406556917033397649408" "(2::real) ^ 85 = 38685626227668133590597632"
  by simp_all

lemma tiny_le:
  fixes x :: real
  assumes "1 \<le> x"
  shows "1 / 2 ^ 1075 \<le> x / 2 ^ 85"
proof -
  have "(1::real) / 2 ^ 1075 \<le> 1 / 2 ^ 85" by (intro divide_left_mono power_increasing) simp_all
  also from assms have "\<dots> \<le> x / 2 ^ 85" by (intro divide_right_mono) simp_all
  finally show ?thesis .
qed

lemma crop_offset:
  assumes "0 \<le> s" and "s \<le> real n" and "1 \<le> real n" and "n < 2 ^ 32"
  shows "0 \<le> nearest (real n - s)" and "nearest (real n - s) \<le> real n"
    and "0 \<le> nearest (nearest (real n - s) / 2)" and "nearest (nearest (real n - s) / 2) \<le> real n"
    and "\<bar>nearest (nearest (real n - s) / 2) - (real n - s) / 2\<bar> \<le> real n / 2 ^ 51"
proof -
  let ?d = "nearest (real n - s)" and ?x = "nearest (nearest (real n - s) / 2)"
  from assms have r: "0 \<le> real n - s" "real n - s \<le> real n" by simp_all
  from nearest_nonneg [OF r(1)] show d0: "0 \<le> ?d" .
  from nearest_le_nat [OF r(2) assms(4)] show dn: "?d \<le> real n" .
  from d0 have h0: "0 \<le> ?d / 2" by simp
  from nearest_nonneg [OF h0] show "0 \<le> ?x" .
  from dn d0 have "?d / 2 \<le> real n" by simp
  from nearest_le_nat [OF this assms(4)] show "?x \<le> real n" .
  define e :: real where "e = 1 / 2 ^ 1075"
  from nearest_tolerance [OF r(1)] have e1: "\<bar>?d - (real n - s)\<bar> \<le> (real n - s) / 2 ^ 53 + e"
    unfolding e_def .
  from nearest_tolerance [OF h0] have e2: "\<bar>?x - ?d / 2\<bar> \<le> ?d / 2 / 2 ^ 53 + e"
    unfolding e_def .
  have "real n / 2 ^ 85 \<le> real n / 2 ^ 53" by (intro divide_left_mono power_increasing) simp_all
  with tiny_le [OF assms(3)] have tiny: "e \<le> real n / 2 ^ 53" unfolding e_def by simp
  from e1 e2 tiny r dn d0 show "\<bar>?x - (real n - s) / 2\<bar> \<le> real n / 2 ^ 51"
    unfolding two_powers by argo
qed

lemma ratio_bounds:
  assumes "nW < 2 ^ 32" and "1 \<le> real nW" and "nH < 2 ^ 32" and "1 \<le> real nH"
  shows "1 / 2 ^ 32 \<le> real nW / real nH" and "real nW / real nH \<le> real nW"
    and "nearest (real nW / real nH) \<le> real nW" and "nearest (real nW / real nH) < 2 ^ 1024"
    and "real nW < 2 ^ 32" and "real nH < 2 ^ 32"
proof -
  from assms(1) show w: "real nW < 2 ^ 32" by (metis of_nat_less_iff of_nat_numeral of_nat_power)
  from assms(3) show h: "real nH < 2 ^ 32" by (metis of_nat_less_iff of_nat_numeral of_nat_power)
  from assms(4) h have "1 / 2 ^ 32 \<le> 1 / real nH" by (intro divide_left_mono) simp_all
  also from assms(2,4) have "\<dots> \<le> real nW / real nH" by (intro divide_right_mono) simp_all
  finally show "1 / 2 ^ 32 \<le> real nW / real nH" .
  from assms(2,4) show q: "real nW / real nH \<le> real nW" by (simp add: field_simps mult_le_cancel_left1)
  from nearest_le_nat [OF q assms(1)] show n: "nearest (real nW / real nH) \<le> real nW" .
  from small_finite [OF n assms(1)] show "nearest (real nW / real nH) < 2 ^ 1024" .
qed

lemma crop_wider:
  assumes "nW < 2 ^ 32" and "1 \<le> real nW" and "nH < 2 ^ 32" and "1 \<le> real nH" and "0 < r"
    and "nearest r < nearest (real nW / real nH)"
  shows "r < real nW / real nH" and "nearest r < 2 ^ 1024" and "0 \<le> nearest r"
    and "0 \<le> nearest (real nH * nearest r)" and "nearest (real nH * nearest r) \<le> real nW"
    and "\<bar>nearest (real nH * nearest r) - real nH * r\<bar> \<le> real nW / 2 ^ 51"
proof -
  let ?W = "real nW" and ?H = "real nH" and ?t = "nearest r"
  note rb = ratio_bounds [OF assms(1-4)]
  from assms(5) have r0: "0 \<le> r" by simp
  from rb(4) assms(6) show fin: "?t < 2 ^ 1024" by simp
  from nearest_nonneg [OF r0] show t0: "0 \<le> ?t" .
  show lt: "r < ?W / ?H"
  proof (rule ccontr)
    assume "\<not> r < ?W / ?H"
    then have "?W / ?H \<le> r" by simp
    from nearest_mono [OF this] assms(6) show False by simp
  qed
  from nearest_less [OF r0 fin assms(6)] have "?t < ?W / ?H" .
  with assms(4) have ht: "?H * ?t < ?W" by (simp add: field_simps)
  from t0 assms(4) have ht0: "0 \<le> ?H * ?t" by simp
  from nearest_nonneg [OF ht0] show "0 \<le> nearest (?H * ?t)" .
  from ht have "?H * ?t \<le> ?W" by simp
  from nearest_le_nat [OF this assms(1)] show "nearest (?H * ?t) \<le> ?W" .
  define e :: real where "e = 1 / 2 ^ 1075"
  from nearest_tolerance [OF r0] have "\<bar>?t - r\<bar> \<le> r / 2 ^ 53 + e" unfolding e_def .
  with assms(4) have "?H * \<bar>?t - r\<bar> \<le> ?H * (r / 2 ^ 53 + e)" by (intro mult_left_mono) simp_all
  moreover from assms(4) have "?H * \<bar>?t - r\<bar> = \<bar>?H * ?t - ?H * r\<bar>"
    by (simp add: abs_mult right_diff_distrib [symmetric])
  ultimately have e1: "\<bar>?H * ?t - ?H * r\<bar> \<le> ?H * r / 2 ^ 53 + ?H * e" by (simp add: algebra_simps)
  from nearest_tolerance [OF ht0] have e2: "\<bar>nearest (?H * ?t) - ?H * ?t\<bar> \<le> ?H * ?t / 2 ^ 53 + e"
    unfolding e_def .
  from lt assms(4) have hr: "?H * r < ?W" by (simp add: field_simps)
  from tiny_le [OF assms(2)] have t1: "e \<le> ?W / 2 ^ 85" unfolding e_def .
  have "?W / 2 ^ 85 \<le> ?W / 2 ^ 53" by (intro divide_left_mono power_increasing) simp_all
  with t1 have t2: "e \<le> ?W / 2 ^ 53" by simp
  from rb(6) have "?H * e \<le> 2 ^ 32 * e" using e_def by (intro mult_right_mono) simp_all
  also from t1 have "\<dots> \<le> 2 ^ 32 * (?W / 2 ^ 85)" by (intro mult_left_mono) simp_all
  also have "\<dots> = ?W / 2 ^ 53" by simp
  finally have t3: "?H * e \<le> ?W / 2 ^ 53" .
  define a b c s where "a = ?H * ?t" and "b = ?H * r" and "c = ?H * e" and "s = nearest (?H * ?t)"
  from e1 e2 hr ht t2 t3 have "\<bar>a - b\<bar> \<le> b / 2 ^ 53 + c" "\<bar>s - a\<bar> \<le> a / 2 ^ 53 + e" "b < ?W" "a < ?W"
    "e \<le> ?W / 2 ^ 53" "c \<le> ?W / 2 ^ 53"
    by (simp_all only: a_def b_def c_def s_def)
  then have "\<bar>s - b\<bar> \<le> ?W / 2 ^ 51" unfolding two_powers by argo
  then show "\<bar>nearest (?H * ?t) - ?H * r\<bar> \<le> ?W / 2 ^ 51" by (simp only: s_def b_def)
qed

lemma normal_relative:
  assumes "1 / 2 ^ 85 \<le> r"
  shows "\<bar>nearest r - r\<bar> \<le> r / 2 ^ 53"
proof -
  have "(1::real) / 2 ^ 1022 \<le> 1 / 2 ^ 85" by (intro divide_left_mono power_increasing) simp_all
  with assms have "1 / 2 ^ 1022 \<le> r" by simp
  then show ?thesis by (rule nearest_relative)
qed

lemma crop_taller:
  assumes "nW < 2 ^ 32" and "1 \<le> real nW" and "nH < 2 ^ 32" and "1 \<le> real nH" and "0 < r"
    and "nearest (real nW / real nH) < nearest r" and "nearest r < 2 ^ 1024"
  shows "real nW / real nH < r" and "0 < nearest r"
    and "0 \<le> nearest (real nW / nearest r)" and "nearest (real nW / nearest r) \<le> real nH"
    and "\<bar>nearest (real nW / nearest r) - real nW / r\<bar> \<le> real nH / 2 ^ 51"
proof -
  let ?W = "real nW" and ?H = "real nH" and ?t = "nearest r"
  note rb = ratio_bounds [OF assms(1-4)]
  from assms(5) have r0: "0 \<le> r" by simp
  show lt: "?W / ?H < r"
  proof (rule ccontr)
    assume "\<not> ?W / ?H < r"
    then have "r \<le> ?W / ?H" by simp
    from nearest_mono [OF this] assms(6) show False by simp
  qed
  from rb(1) have "0 \<le> ?W / ?H" by simp
  from nearest_nonneg [OF this] assms(6) show t0: "0 < ?t" by simp
  from nearest_greater [OF r0 assms(7) assms(6)] have "?W / ?H < ?t" .
  with assms(4) t0 have q: "?W / ?t < ?H" by (simp add: field_simps)
  from t0 assms(2) have q0: "0 \<le> ?W / ?t" by simp
  from nearest_nonneg [OF q0] show "0 \<le> nearest (?W / ?t)" .
  from q have "?W / ?t \<le> ?H" by simp
  from nearest_le_nat [OF this assms(3)] show "nearest (?W / ?t) \<le> ?H" .
  define e :: real where "e = 1 / 2 ^ 1075"
  have "(1::real) / 2 ^ 85 \<le> 1 / 2 ^ 32" by (intro divide_left_mono power_increasing) simp_all
  with rb(1) lt have "1 / 2 ^ 85 \<le> r" by simp
  from normal_relative [OF this] have "\<bar>?t - r\<bar> \<le> r / 2 ^ 53" .
  moreover have "?W / ?t - ?W / r = ?W * (r - ?t) / (?t * r)"
    using t0 assms(5) by (simp add: field_simps)
  then have "\<bar>?W / ?t - ?W / r\<bar> = ?W * \<bar>?t - r\<bar> / (?t * r)"
    using t0 assms(5) by (simp add: abs_mult abs_minus_commute)
  ultimately have "\<bar>?W / ?t - ?W / r\<bar> \<le> ?W * (r / 2 ^ 53) / (?t * r)"
    using t0 assms(5) by (simp only:) (intro divide_right_mono mult_left_mono, simp_all)
  also have "\<dots> = ?W / ?t / 2 ^ 53" using t0 assms(5) by simp
  finally have e1: "\<bar>?W / ?t - ?W / r\<bar> \<le> ?W / ?t / 2 ^ 53" .
  from nearest_tolerance [OF q0] have e2: "\<bar>nearest (?W / ?t) - ?W / ?t\<bar> \<le> ?W / ?t / 2 ^ 53 + e"
    unfolding e_def .
  from tiny_le [OF assms(4)] have t1: "e \<le> ?H / 2 ^ 85" unfolding e_def .
  have "?H / 2 ^ 85 \<le> ?H / 2 ^ 53" by (intro divide_left_mono power_increasing) simp_all
  with t1 have t2: "e \<le> ?H / 2 ^ 53" by simp
  define a b s where "a = ?W / ?t" and "b = ?W / r" and "s = nearest (?W / ?t)"
  from e1 e2 q q0 t2 have "\<bar>a - b\<bar> \<le> a / 2 ^ 53" "\<bar>s - a\<bar> \<le> a / 2 ^ 53 + e" "a < ?H" "0 \<le> a"
    "e \<le> ?H / 2 ^ 53"
    by (simp_all only: a_def b_def s_def)
  then have "\<bar>s - b\<bar> \<le> ?H / 2 ^ 51" unfolding two_powers by argo
  then show "\<bar>nearest (?W / ?t) - ?W / r\<bar> \<le> ?H / 2 ^ 51" by (simp only: s_def b_def)
qed

lemma crop_taller_inf:
  assumes "nW < 2 ^ 32" and "1 \<le> real nW" and "nH < 2 ^ 32" and "1 \<le> real nH" and "0 < r"
    and "2 ^ 1024 \<le> nearest r"
  shows "real nW / real nH < r" and "real nW / r \<le> real nH / 2 ^ 51"
proof -
  let ?W = "real nW" and ?H = "real nH"
  note rb = ratio_bounds [OF assms(1-4)]
  have big: "2 ^ 83 \<le> r"
  proof (rule ccontr)
    assume "\<not> 2 ^ 83 \<le> r"
    then have lt: "r < 2 ^ 83" by simp
    define e :: real where "e = 1 / 2 ^ 1075"
    define M :: real where "M = 2 ^ 1024"
    from assms(5) have "0 \<le> r" by simp
    from nearest_tolerance [OF this] have "\<bar>nearest r - r\<bar> \<le> r / 2 ^ 53 + e" unfolding e_def .
    moreover have "e \<le> 1" unfolding e_def by simp
    moreover have "(2::real) ^ 85 \<le> M" unfolding M_def by (intro power_increasing) simp_all
    moreover from assms(6) have "M \<le> nearest r" unfolding M_def .
    ultimately show False using lt assms(5) unfolding two_powers by argo
  qed
  from rb(2,5) have "?W / ?H < 2 ^ 32" by simp
  also have "(2::real) ^ 32 \<le> 2 ^ 83" by (intro power_increasing) simp_all
  finally show "?W / ?H < r" using big by simp
  from rb(5) have "?W * 2 ^ 51 \<le> 2 ^ 32 * 2 ^ 51" by (intro mult_right_mono) simp_all
  also have "(2::real) ^ 32 * 2 ^ 51 = 2 ^ 83" by (simp only: power_add [symmetric]) simp
  finally have "?W * 2 ^ 51 \<le> r" using big by simp
  with assms(5) have "?W / r \<le> 1 / 2 ^ 51" by (simp add: field_simps)
  also from assms(4) have "\<dots> \<le> ?H / 2 ^ 51" by (intro divide_right_mono) simp_all
  finally show "?W / r \<le> ?H / 2 ^ 51" .
qed

lemma crop_same:
  assumes "nW < 2 ^ 32" and "1 \<le> real nW" and "nH < 2 ^ 32" and "1 \<le> real nH" and "0 < r"
    and "nearest (real nW / real nH) = nearest r"
  shows "\<bar>real nW - real nH * r\<bar> \<le> real nW / 2 ^ 51"
    and "\<bar>real nH - real nW / r\<bar> \<le> real nH / 2 ^ 51"
proof -
  let ?W = "real nW" and ?H = "real nH" and ?q = "real nW / real nH" and ?o = "nearest (real nW / real nH)"
  note rb = ratio_bounds [OF assms(1-4)]
  from assms(5) have r0: "0 \<le> r" by simp
  define e :: real where "e = 1 / 2 ^ 1075"
  have p: "(1::real) / 2 ^ 85 \<le> 1 / 2 ^ 32" by (intro divide_left_mono power_increasing) simp_all
  from p rb(1) have "1 / 2 ^ 85 \<le> ?q" by (rule order_trans)
  from normal_relative [OF this] have eq: "\<bar>?o - ?q\<bar> \<le> ?q / 2 ^ 53" .
  from nearest_tolerance [OF r0] assms(6) have er: "\<bar>?o - r\<bar> \<le> r / 2 ^ 53 + e"
    unfolding e_def by simp
  have e85: "e \<le> 1 / 2 ^ 85" unfolding e_def by (intro divide_left_mono power_increasing) simp_all
  from eq er e85 rb(1) have "1 / 2 ^ 85 \<le> r" unfolding two_powers by argo
  from normal_relative [OF this] assms(6) have er': "\<bar>?o - r\<bar> \<le> r / 2 ^ 53" by simp
  from eq er' have d: "\<bar>?q - r\<bar> \<le> ?q / 2 ^ 53 + r / 2 ^ 53" by argo
  with assms(4) have "?H * \<bar>?q - r\<bar> \<le> ?H * (?q / 2 ^ 53 + r / 2 ^ 53)" by (intro mult_left_mono) simp_all
  moreover have "?H * \<bar>?q - r\<bar> = \<bar>?W - ?H * r\<bar>"
  proof -
    from assms(4) have "?H * \<bar>?q - r\<bar> = \<bar>?H * (?q - r)\<bar>" by (simp add: abs_mult)
    also from assms(4) have "?H * (?q - r) = ?W - ?H * r" by (simp add: field_simps)
    finally show ?thesis .
  qed
  moreover from assms(4) have "?H * (?q / 2 ^ 53 + r / 2 ^ 53) = ?W / 2 ^ 53 + ?H * r / 2 ^ 53"
    by (simp add: algebra_simps)
  ultimately have 1: "\<bar>?W - ?H * r\<bar> \<le> ?W / 2 ^ 53 + ?H * r / 2 ^ 53" by simp
  define b where "b = ?H * r"
  from 1 assms(2) have "\<bar>?W - b\<bar> \<le> ?W / 2 ^ 53 + b / 2 ^ 53" "1 \<le> ?W" by (simp_all only: b_def)
  then have "\<bar>?W - b\<bar> \<le> ?W / 2 ^ 51" unfolding two_powers by argo
  then show "\<bar>?W - ?H * r\<bar> \<le> ?W / 2 ^ 51" by (simp only: b_def)
  from d assms(4,5) have "?H / r * \<bar>?q - r\<bar> \<le> ?H / r * (?q / 2 ^ 53 + r / 2 ^ 53)"
    by (intro mult_left_mono) simp_all
  moreover have "?H / r * \<bar>?q - r\<bar> = \<bar>?W / r - ?H\<bar>"
  proof -
    from assms(4,5) have "?H / r * \<bar>?q - r\<bar> = \<bar>?H / r * (?q - r)\<bar>" by (simp add: abs_mult)
    also from assms(4,5) have "?H / r * (?q - r) = ?W / r - ?H" by (simp add: field_simps)
    finally show ?thesis .
  qed
  moreover from assms(4,5) have "?H / r * (?q / 2 ^ 53 + r / 2 ^ 53) = ?W / r / 2 ^ 53 + ?H / 2 ^ 53"
    by (simp add: algebra_simps)
  ultimately have 2: "\<bar>?W / r - ?H\<bar> \<le> ?W / r / 2 ^ 53 + ?H / 2 ^ 53" by simp
  define c where "c = ?W / r"
  from 2 assms(4) have "\<bar>c - ?H\<bar> \<le> c / 2 ^ 53 + ?H / 2 ^ 53" "1 \<le> ?H" by (simp_all only: c_def)
  then have "\<bar>?H - c\<bar> \<le> ?H / 2 ^ 51" unfolding two_powers by argo
  then show "\<bar>?H - ?W / r\<bar> \<le> ?H / 2 ^ 51" by (simp only: c_def)
qed

section \<open>Properties of the usage counters\<close>

subsection \<open>The calendar\<close>

lemma nextDay_greater: "t < nextDay t"
  by (cases t) (simp add: less_prod_def)

lemma prevDay_less: "prevDay t < t"
  by (cases t) (simp add: less_prod_def)

lemma civilFromDays_succ_nonneg: "0 \<le> z \<Longrightarrow> civilFromDays (z + 1) = nextDay (civilFromDays z)"
  by (simp add: civilFromDays_def nat_add_distrib)

lemma civilFromDays_pred_nonpos: "z \<le> 0 \<Longrightarrow> civilFromDays (z - 1) = prevDay (civilFromDays z)"
proof (cases "z = 0")
  case True
  then show ?thesis by (simp add: civilFromDays_def)
next
  case False
  assume "z \<le> 0"
  with False have "nat (- (z - 1)) = Suc (nat (- z))" by simp
  with False \<open>z \<le> 0\<close> show ?thesis by (simp add: civilFromDays_def)
qed

lemma civilFromDays_step: "civilFromDays z < civilFromDays (z + 1)"
proof (cases "0 \<le> z")
  case True
  then show ?thesis by (simp add: civilFromDays_succ_nonneg nextDay_greater)
next
  case False
  then have "z + 1 \<le> 0" by simp
  from civilFromDays_pred_nonpos [OF this] show ?thesis
    by (simp add: prevDay_less)
qed

lemma civilFromDays_strict_mono: "a < b \<Longrightarrow> civilFromDays a < civilFromDays b"
proof (induction b rule: int_gr_induct)
  case base
  then show ?case by (rule civilFromDays_step)
next
  case (step i)
  from step.IH civilFromDays_step [of i] show ?case by (rule less_trans)
qed

lemma civilFromDays_inj: "civilFromDays a = civilFromDays b \<Longrightarrow> a = b"
proof (rule ccontr)
  assume eq: "civilFromDays a = civilFromDays b" and "a \<noteq> b"
  then consider "a < b" | "b < a" by linarith
  then show False
  proof cases
    case 1
    from civilFromDays_strict_mono [OF this] eq show False by simp
  next
    case 2
    from civilFromDays_strict_mono [OF this] eq show False by simp
  qed
qed

lemma daysInMonth_le: "daysInMonth y m \<le> 31"
  by (simp add: daysInMonth_def)

lemma daysInMonth_ge: "1 \<le> daysInMonth y m"
  by (simp add: daysInMonth_def)

lemma validDate_nextDay: "validDate t \<Longrightarrow> validDate (nextDay t)"
proof (cases t)
  case (fields y m d)
  assume "validDate t"
  with fields have b: "1 \<le> m" "m \<le> 12" "1 \<le> d" "d \<le> 31" by (simp_all add: validDate_def)
  from daysInMonth_le [of y m] b show ?thesis
    unfolding fields by (simp add: validDate_def)
qed

lemma validDate_prevDay: "validDate t \<Longrightarrow> validDate (prevDay t)"
proof (cases t)
  case (fields y m d)
  assume "validDate t"
  with fields have b: "1 \<le> m" "m \<le> 12" "1 \<le> d" "d \<le> 31" by (simp_all add: validDate_def)
  from b show ?thesis
    unfolding fields by (auto simp: validDate_def daysInMonth_le daysInMonth_ge [simplified])
qed

lemma validDate_funpow_next: "validDate t \<Longrightarrow> validDate ((nextDay ^^ n) t)"
  by (induction n) (simp_all add: validDate_nextDay)

lemma validDate_funpow_prev: "validDate t \<Longrightarrow> validDate ((prevDay ^^ n) t)"
  by (induction n) (simp_all add: validDate_prevDay)

lemma validDate_epoch: "validDate (1970, 1, 1)"
  by (simp add: validDate_def)

lemma validDate_civilFromDays: "validDate (civilFromDays z)"
  unfolding civilFromDays_def
  using validDate_funpow_next [OF validDate_epoch] validDate_funpow_prev [OF validDate_epoch]
  by simp


lemma of_char_digitChar: "d < 10 \<Longrightarrow> (of_char (digitChar d) :: nat) = 48 + d"
  by (simp add: digitChar_def)

lemma digitsValue_snoc: "digitsValue (s @ [c]) = 10 * digitsValue s + (of_char c - 48)"
  by (simp add: digitsValue_def)

lemma digitsValue_digits: "digitsValue (digits n) = n"
proof (induction n rule: digits.induct)
  case (1 n)
  show ?case
  proof (cases "n < 10")
    case True
    then show ?thesis by (subst digits.simps) (simp add: digitsValue_def of_char_digitChar)
  next
    case False
    with 1 have "digitsValue (digits (n div 10)) = n div 10" by simp
    with False show ?thesis
      by (subst digits.simps) (simp add: digitsValue_snoc of_char_digitChar)
  qed
qed

lemma foldl_zeros: "foldl (\<lambda>acc c. 10 * acc + (of_char c - 48)) (0::nat) (replicate k CHR ''0'') = 0"
  by (induction k) simp_all

lemma digitsValue_padStart: "digitsValue (padStart w s) = digitsValue s"
  by (simp add: digitsValue_def padStart_def foldl_zeros)

lemma padStart_digits_inj: "padStart w (digits a) = padStart w' (digits b) \<Longrightarrow> a = b"
  by (metis digitsValue_padStart digitsValue_digits)

lemma length_digits_2: "n < 100 \<Longrightarrow> length (digits n) \<le> 2"
proof -
  assume "n < 100"
  then have "n div 10 < 10" by simp
  then have "length (digits (n div 10)) = 1" by (subst digits.simps) simp
  then show ?thesis by (subst digits.simps) simp
qed

lemma length_padStart: "length s \<le> w \<Longrightarrow> length (padStart w s) = w"
  by (simp add: padStart_def)

lemma isDigit_digitChar: "d < 10 \<Longrightarrow> isDigit (digitChar d)"
  by (simp add: isDigit_def of_char_digitChar)

lemma digits_all_isDigit: "list_all isDigit (digits n)"
proof (induction n rule: digits.induct)
  case (1 n)
  show ?case
  proof (cases "n < 10")
    case True
    then show ?thesis by (subst digits.simps) (simp add: isDigit_digitChar)
  next
    case False
    with 1 have "list_all isDigit (digits (n div 10))" by simp
    with False show ?thesis
      by (subst digits.simps) (simp add: isDigit_digitChar)
  qed
qed

lemma digits_nonempty: "digits n \<noteq> []"
  by (subst digits.simps) simp

lemma zeros_all_isDigit: "list_all isDigit (replicate k CHR ''0'')"
  by (induction k) (simp_all add: isDigit_def)

lemma padStart_all_isDigit: "list_all isDigit (padStart w (digits n))"
  by (simp add: padStart_def digits_all_isDigit zeros_all_isDigit)

lemma padStart_digits_hd: "isDigit (hd (padStart w (digits n)))"
proof -
  have "padStart w (digits n) \<noteq> []" by (simp add: padStart_def digits_nonempty)
  with padStart_all_isDigit [of w n] show ?thesis
    by (cases "padStart w (digits n)") simp_all
qed

subsection \<open>Date strings determine the day\<close>

lemma yearString_inj: "yearString a = yearString b \<Longrightarrow> a = b"
proof -
  assume eq: "yearString a = yearString b"
  have plain: "isDigit (hd (yearString y))" if "0 \<le> y \<and> y \<le> 9999" for y
    using that by (simp add: yearString_def padStart_digits_hd)
  have signed: "\<not> isDigit (hd (yearString y))" if "\<not> (0 \<le> y \<and> y \<le> 9999)" for y
    using that by (simp add: yearString_def isDigit_def)
  show ?thesis
  proof (cases "0 \<le> a \<and> a \<le> 9999")
    case True
    with plain [of a] signed [of b] eq have b: "0 \<le> b \<and> b \<le> 9999" by auto
    with True eq have "padStart 4 (digits (nat a)) = padStart 4 (digits (nat b))"
      by (simp add: yearString_def)
    then have "nat a = nat b" by (rule padStart_digits_inj)
    then have "int (nat a) = int (nat b)" by simp
    with True b show ?thesis by simp
  next
    case False
    with plain [of b] signed [of a] eq have b: "\<not> (0 \<le> b \<and> b \<le> 9999)" by auto
    from False b eq have sgn: "(a < 0) = (b < 0)"
      by (auto simp: yearString_def split: if_splits)
    from False b eq sgn have "padStart 6 (digits (nat \<bar>a\<bar>)) = padStart 6 (digits (nat \<bar>b\<bar>))"
      by (auto simp: yearString_def split: if_splits)
    then have "nat \<bar>a\<bar> = nat \<bar>b\<bar>" by (rule padStart_digits_inj)
    with sgn show ?thesis by auto
  qed
qed

lemma length_pad2: "n \<le> 31 \<Longrightarrow> length (padStart 2 (digits n)) = 2"
  by (rule length_padStart, rule length_digits_2) simp

lemma dateString_inj:
  assumes "validDate s" and "validDate t" and eq: "dateString s = dateString t"
  shows "s = t"
proof -
  obtain y m d where s: "s = (y, m, d)" by (cases s)
  obtain y' m' d' where t: "t = (y', m', d')" by (cases t)
  from assms s t have b: "m \<le> 31" "d \<le> 31" "m' \<le> 31" "d' \<le> 31"
    by (simp_all add: validDate_def)
  let ?tl = "\<lambda>m d. ''-'' @ padStart 2 (digits m) @ ''-'' @ padStart 2 (digits d)"
  have len: "length (?tl m d) = length (?tl m' d')"
    using b by (simp add: length_pad2)
  from eq s t have "yearString y @ ?tl m d = yearString y' @ ?tl m' d'" by simp
  with len append_eq_append_conv [of "yearString y" "yearString y'" "?tl m d" "?tl m' d'"]
  have ys: "yearString y = yearString y'" and tl: "?tl m d = ?tl m' d'"
    by blast+
  from tl have "padStart 2 (digits m) @ (''-'' @ padStart 2 (digits d))
      = padStart 2 (digits m') @ (''-'' @ padStart 2 (digits d'))" by simp
  moreover have "length (padStart 2 (digits m)) = length (padStart 2 (digits m'))"
    using b by (simp add: length_pad2)
  ultimately have mm: "padStart 2 (digits m) = padStart 2 (digits m')"
    and "''-'' @ padStart 2 (digits d) = ''-'' @ padStart 2 (digits d')"
    using append_eq_append_conv [of "padStart 2 (digits m)" "padStart 2 (digits m')"
        "''-'' @ padStart 2 (digits d)" "''-'' @ padStart 2 (digits d')"]
    by blast+
  then have dd: "padStart 2 (digits d) = padStart 2 (digits d')" by simp
  from yearString_inj [OF ys] padStart_digits_inj [OF mm] padStart_digits_inj [OF dd] s t
  show ?thesis by simp
qed

lemma toISOString_date_inj:
  "toISOString_date a = toISOString_date b \<Longrightarrow> a div msPerDay = b div msPerDay"
  unfolding toISOString_date_def
  by (rule civilFromDays_inj, rule dateString_inj) (simp_all add: validDate_civilFromDays)

lemma getISODateString_localDays:
  "getISODateString date = dateString (civilFromDays (localDays date))"
  by (simp add: getISODateString_def localDays_def toISOString_date_def Let_def)

lemma getISODateString_eq_iff:
  "getISODateString a = getISODateString b \<longleftrightarrow> localDays a = localDays b"
proof
  assume "getISODateString a = getISODateString b"
  then have "dateString (civilFromDays (localDays a)) = dateString (civilFromDays (localDays b))"
    by (simp add: getISODateString_localDays)
  then have "civilFromDays (localDays a) = civilFromDays (localDays b)"
    by (rule dateString_inj [OF validDate_civilFromDays validDate_civilFromDays])
  then show "localDays a = localDays b" by (rule civilFromDays_inj)
next
  assume "localDays a = localDays b"
  then show "getISODateString a = getISODateString b"
    by (simp add: getISODateString_localDays)
qed

lemma localDays_setDate: "localDays (setDate date n) = localDays date + (n - getDate date)"
  by (simp add: localDays_def setDate_def msPerDay_def algebra_simps)

subsection \<open>Incrementing and displaying\<close>

lemma map_of_update_same: "map_of (AList.update k v al) k = Some v"
  by (simp add: update_conv')

lemma map_of_update_other: "key \<noteq> k \<Longrightarrow> map_of (AList.update k v al) key = map_of al key"
  by (simp add: update_conv')

lemma incrementUsage_storage:
  "fst (incrementUsage Number now storage)
     = Some (Json \<lparr>oldToday = None, storedTotal = Some (totalOf storage + 1),
          dailyCounts = Some (AList.update (getISODateString now)
             (countOr0 (countsOf storage) (getISODateString now) + 1) (countsOf storage))\<rparr>)"
  by (simp add: incrementUsage_def Let_def totalOf_def countsOf_def
      split: option.split item.split)

lemma totalOf_incrementUsage: "totalOf (fst (incrementUsage Number now storage)) = totalOf storage + 1"
  by (simp add: incrementUsage_storage) (simp add: totalOf_def)

lemma countsOf_incrementUsage:
  "countOr0 (countsOf (fst (incrementUsage Number now storage))) key
     = countOr0 (countsOf storage) key + (if key = getISODateString now then 1 else 0)"
  by (simp add: incrementUsage_storage)
     (simp add: countsOf_def countOr0_def map_of_update_same map_of_update_other)

lemma totalOf_incrementUsages:
  "totalOf (incrementUsages Number dates storage) = totalOf storage + length dates"
  unfolding incrementUsages_def
  by (induction dates arbitrary: storage) (simp_all add: totalOf_incrementUsage)

lemma countsOf_incrementUsages:
  "countOr0 (countsOf (incrementUsages Number dates storage)) key
     = countOr0 (countsOf storage) key + length (filter (\<lambda>d. getISODateString d = key) dates)"
  unfolding incrementUsages_def
  by (induction dates arbitrary: storage) (auto simp: countsOf_incrementUsage)

lemma newShape_incrementUsages: "newShape storage \<Longrightarrow> newShape (incrementUsages Number dates storage)"
  unfolding incrementUsages_def
  by (induction dates arbitrary: storage) (simp_all add: incrementUsage_storage newShape_def)

lemma calculateStats_fields:
  "today (calculateStats Number now stats)
     = countOr0 (case dailyCounts stats of None \<Rightarrow> [] | Some c \<Rightarrow> c) (getISODateString now)"
  "yesterday (calculateStats Number now stats)
     = countOr0 (case dailyCounts stats of None \<Rightarrow> [] | Some c \<Rightarrow> c)
         (getISODateString (setDate now (getDate now - 1)))"
  "last7Days (calculateStats Number now stats)
     = (\<Sum>i \<leftarrow> [0 ..< 7]. countOr0 (case dailyCounts stats of None \<Rightarrow> [] | Some c \<Rightarrow> c)
         (getISODateString (setDate now (getDate now - int i))))"
  "total (calculateStats Number now stats) = (case storedTotal stats of None \<Rightarrow> 0 | Some t \<Rightarrow> t)"
proof -
  have fold: "foldl (\<lambda>acc i. acc + f i) a xs = a + (\<Sum>i \<leftarrow> xs. f i)" for f :: "nat \<Rightarrow> nat" and a xs
    by (induction xs arbitrary: a) simp_all
  show "today (calculateStats Number now stats)
     = countOr0 (case dailyCounts stats of None \<Rightarrow> [] | Some c \<Rightarrow> c) (getISODateString now)"
    by (simp add: calculateStats_def Let_def)
  show "yesterday (calculateStats Number now stats)
     = countOr0 (case dailyCounts stats of None \<Rightarrow> [] | Some c \<Rightarrow> c)
         (getISODateString (setDate now (getDate now - 1)))"
    by (simp add: calculateStats_def Let_def)
  show "last7Days (calculateStats Number now stats)
     = (\<Sum>i \<leftarrow> [0 ..< 7]. countOr0 (case dailyCounts stats of None \<Rightarrow> [] | Some c \<Rightarrow> c)
         (getISODateString (setDate now (getDate now - int i))))"
    by (simp add: calculateStats_def Let_def fold)
  show "total (calculateStats Number now stats) = (case storedTotal stats of None \<Rightarrow> 0 | Some t \<Rightarrow> t)"
    by (simp add: calculateStats_def Let_def)
qed

lemma mountEffect_newShape:
  assumes "newShape storage"
  shows "today (snd (mountEffect Number now storage)) = countOr0 (countsOf storage) (getISODateString now)"
    and "yesterday (snd (mountEffect Number now storage))
          = countOr0 (countsOf storage) (getISODateString (setDate now (getDate now - 1)))"
    and "last7Days (snd (mountEffect Number now storage))
          = (\<Sum>i \<leftarrow> [0 ..< 7]. countOr0 (countsOf storage)
               (getISODateString (setDate now (getDate now - int i))))"
    and "total (snd (mountEffect Number now storage)) = totalOf storage"
  using assms
  by (auto simp: mountEffect_def newShape_def calculateStats_fields countsOf_def totalOf_def
      emptyObject_def split: option.splits item.splits)

lemma count_on_day:
  "length (filter (\<lambda>d. getISODateString d = getISODateString (setDate now (getDate now - i))) dates)
     = length (filter (\<lambda>d. localDays d = localDays now - i) dates)"
  by (simp add: getISODateString_eq_iff localDays_setDate)

lemma count_today:
  "length (filter (\<lambda>d. getISODateString d = getISODateString now) dates)
     = length (filter (\<lambda>d. localDays d = localDays now) dates)"
  by (simp add: getISODateString_eq_iff)

lemma filter_all: "\<forall>d \<in> set ds. P d \<Longrightarrow> length (filter P ds) = length ds"
  by (induction ds) simp_all

lemma filter_none: "\<forall>d \<in> set ds. \<not> P d \<Longrightarrow> length (filter P ds) = 0"
  by (induction ds) simp_all

lemma three_days_count:
  assumes "\<forall>d \<in> set day1. localDays d = D - 2"
    and "\<forall>d \<in> set day2. localDays d = D - 1"
    and "\<forall>d \<in> set day3. localDays d = D"
  shows "length (filter (\<lambda>d. localDays d = D - i) (day1 @ day2 @ day3))
           = (if i = 2 then length day1 else 0) + (if i = 1 then length day2 else 0)
             + (if i = 0 then length day3 else 0)"
proof -
  have 1: "length (filter (\<lambda>d. localDays d = D - i) day1) = (if i = 2 then length day1 else 0)"
    using assms(1) by (auto intro!: filter_all filter_none)
  have 2: "length (filter (\<lambda>d. localDays d = D - i) day2) = (if i = 1 then length day2 else 0)"
    using assms(2) by (auto intro!: filter_all filter_none)
  have 3: "length (filter (\<lambda>d. localDays d = D - i) day3) = (if i = 0 then length day3 else 0)"
    using assms(3) by (auto intro!: filter_all filter_none)
  show ?thesis by (simp only: filter_append length_append 1 2 3)
qed

subsection \<open>Dates of the examples\<close>

text \<open>
  Stepping month by month: the calendar date of a day number is computed without going
  through every day.
\<close>

lemma within_month:
  "d + k \<le> daysInMonth y m \<Longrightarrow> (nextDay ^^ k) (y, m, d) = (y, m, d + k)"
proof (induction k)
  case 0
  show ?case by simp
next
  case (Suc k)
  then have "(nextDay ^^ k) (y, m, d) = (y, m, d + k)" by simp
  with Suc.prems show ?case by simp
qed

lemma month_hop:
  assumes "d \<le> daysInMonth y m" and "daysInMonth y m - d < k"
  shows "(nextDay ^^ k) (y, m, d)
     = (nextDay ^^ (k - (daysInMonth y m - d) - 1)) (if m < 12 then (y, m + 1, 1) else (y + 1, 1, 1))"
proof -
  let ?j = "daysInMonth y m - d"
  from assms have k: "k = (k - ?j - 1) + (1 + ?j)" by simp
  have "(nextDay ^^ ?j) (y, m, d) = (y, m, d + ?j)"
    using assms(1) by (intro within_month) simp
  with assms(1) have "(nextDay ^^ ?j) (y, m, d) = (y, m, daysInMonth y m)" by simp
  then have "(nextDay ^^ (1 + ?j)) (y, m, d) = (if m < 12 then (y, m + 1, 1) else (y + 1, 1, 1))"
    by simp
  then have "(nextDay ^^ ((k - ?j - 1) + (1 + ?j))) (y, m, d)
      = (nextDay ^^ (k - ?j - 1)) (if m < 12 then (y, m + 1, 1) else (y + 1, 1, 1))"
    by (simp only: funpow_add o_apply)
  with k show ?thesis by simp
qed

lemma civil_2024_03_09: "civilFromDays 19791 = (2024, 3, 9)"
  by (simp add: civilFromDays_def month_hop within_month daysInMonth_def isLeapYear_def)

lemma civil_2024_03_10: "civilFromDays 19792 = (2024, 3, 10)"
  by (simp add: civilFromDays_def month_hop within_month daysInMonth_def isLeapYear_def)

lemma dateString_2024_03_10: "dateString (2024, 3, 10) = ''2024-03-10''"
  by code_simp

lemma dateString_2024_03_09: "dateString (2024, 3, 9) = ''2024-03-09''"
  by code_simp

lemma local_date_example:
  "getISODateString \<lparr>getTime = 1710021600000, getTimezoneOffset = - 420\<rparr> = ''2024-03-10''"
  by (simp add: getISODateString_localDays localDays_def msPerDay_def civil_2024_03_10
      dateString_2024_03_10 del: dateString.simps)

lemma utc_date_example: "toISOString_date 1710021600000 = ''2024-03-09''"
  by (simp add: toISOString_date_def msPerDay_def civil_2024_03_09 dateString_2024_03_09
      del: dateString.simps)

section \<open>Properties of the compositing\<close>

subsection \<open>The search for the font size\<close>

lemma fitFontSize_le: "fitFontSize b fam t m n \<le> n"
proof (induction b fam t m n rule: fitFontSize.induct)
  case (1 b fam t m n)
  show ?case
  proof (cases "10 < n \<and> \<not> measureText b (titleFont n fam) t \<le> m")
    case True
    with 1 have "fitFontSize b fam t m (n - 1) \<le> n - 1" by simp
    with True show ?thesis by (subst fitFontSize.simps) simp
  next
    case False
    then show ?thesis by (subst fitFontSize.simps) auto
  qed
qed

lemma fitFontSize_ge: "10 \<le> n \<Longrightarrow> 10 \<le> fitFontSize b fam t m n"
proof (induction b fam t m n rule: fitFontSize.induct)
  case (1 b fam t m n)
  show ?case
  proof (cases "10 < n \<and> \<not> measureText b (titleFont n fam) t \<le> m")
    case True
    then have "10 \<le> n - 1" by arith
    with 1(1) True have "10 \<le> fitFontSize b fam t m (n - 1)" by simp
    with True show ?thesis by (subst fitFontSize.simps) simp
  next
    case False
    with 1(2) show ?thesis by (subst fitFontSize.simps) auto
  qed
qed

lemma fitFontSize_fits:
  "10 < fitFontSize b fam t m n \<Longrightarrow> measureText b (titleFont (fitFontSize b fam t m n) fam) t \<le> m"
proof (induction b fam t m n rule: fitFontSize.induct)
  case (1 b fam t m n)
  show ?case
  proof (cases "10 < n \<and> \<not> measureText b (titleFont n fam) t \<le> m")
    case True
    then have eq: "fitFontSize b fam t m n = fitFontSize b fam t m (n - 1)"
      by (subst fitFontSize.simps) simp
    with 1 True show ?thesis by simp
  next
    case False
    then have eq: "fitFontSize b fam t m n = n"
      by (subst fitFontSize.simps) auto
    with 1(2) False show ?thesis by auto
  qed
qed

lemma fitFontSize_largest:
  "fitFontSize b fam t m n < s \<Longrightarrow> s \<le> n \<Longrightarrow> \<not> measureText b (titleFont s fam) t \<le> m"
proof (induction b fam t m n rule: fitFontSize.induct)
  case (1 b fam t m n)
  show ?case
  proof (cases "10 < n \<and> \<not> measureText b (titleFont n fam) t \<le> m")
    case True
    then have eq: "fitFontSize b fam t m n = fitFontSize b fam t m (n - 1)"
      by (subst fitFontSize.simps) simp
    show ?thesis
    proof (cases "s = n")
      case True
      with \<open>10 < n \<and> \<not> measureText b (titleFont n fam) t \<le> m\<close> show ?thesis by simp
    next
      case False
      with 1(3) have "s \<le> n - 1" by simp
      with 1(1) True 1(2) eq show ?thesis by simp
    qed
  next
    case False
    then have eq: "fitFontSize b fam t m n = n"
      by (subst fitFontSize.simps) auto
    with 1(2,3) show ?thesis by simp
  qed
qed

subsection \<open>The title and the subtitle only add text\<close>

lemma fillText_frame [simp]:
  "width (fillText s x y c) = width c" "height (fillText s x y c) = height c"
  "ctx (fillText s x y c) = ctx c" "drawn (fillText s x y c) = drawn c @ [FillText s x y (ctx c)]"
  by (simp_all add: fillText_def)

lemma setFont_frame [simp]:
  "width (setFont f c) = width c" "height (setFont f c) = height c"
  "drawn (setFont f c) = drawn c" "font (ctx (setFont f c)) = f"
  by (simp_all add: setFont_def)

lemma setFillStyle_frame [simp]:
  "width (setFillStyle s c) = width c" "height (setFillStyle s c) = height c"
  "drawn (setFillStyle s c) = drawn c" "font (ctx (setFillStyle s c)) = font (ctx c)"
  by (simp_all add: setFillStyle_def)

lemma setShadow_frame [simp]:
  "width (setShadow col bl ox oy c) = width c" "height (setShadow col bl ox oy c) = height c"
  "drawn (setShadow col bl ox oy c) = drawn c" "font (ctx (setShadow col bl ox oy c)) = font (ctx c)"
  by (simp_all add: setShadow_def)

lemma textOnly_refl: "textOnly c c"
  by (simp add: textOnly_def)

lemma textOnly_trans [trans]: "textOnly a b \<Longrightarrow> textOnly b c \<Longrightarrow> textOnly a c"
  by (auto simp: textOnly_def)

lemma textOnly_fillText: "textOnly c (fillText s x y c)"
  by (simp add: textOnly_def)

lemma textOnly_setFillStyle: "textOnly c (setFillStyle s c)"
  by (simp add: textOnly_def)

lemma textOnly_setShadow: "textOnly c (setShadow col bl ox oy c)"
  by (simp add: textOnly_def)

lemma textOnly_setFont: "textOnly c (setFont f c)"
  by (simp add: textOnly_def)

lemma textOnly_extrusion:
  "textOnly c (foldl (\<lambda>c i. fillText s (x + real i) (y + real i) c) c is)"
proof (induction "is" arbitrary: c)
  case Nil
  show ?case by (simp add: textOnly_refl)
next
  case (Cons i "is")
  from textOnly_fillText Cons show ?case
    by (simp only: foldl_Cons) (rule textOnly_trans)
qed

lemma textOnly_drawPart: "textOnly c (fst (drawPart b fs n (c, x) item))"
proof -
  obtain part index where item: "item = (part, index)" by (cases item)
  let ?t = "toUpperCase (partText part)"
  let ?c1 = "setFillStyle ''rgba(0, 0, 0, 0.6)'' c"
  let ?c2 = "foldl (\<lambda>c i. fillText ?t (x + real i) (25 + real i) c) ?c1
               [1 ..< max 2 (nat \<lceil>real fs / 35\<rceil>) + 1]"
  let ?c3 = "setShadow ''rgba(0, 0, 0, 0.75)'' (max 5 (real fs / 15))
               (max 2 (real fs / 40)) (max 2 (real fs / 40)) ?c2"
  let ?c4 = "setFillStyle (partColor part) ?c3"
  let ?c5 = "fillText ?t x 25 ?c4"
  let ?c6 = "setShadow ''transparent'' 0 0 0 ?c5"
  have eq: "fst (drawPart b fs n (c, x) item) = ?c6"
    by (simp add: drawPart_def item Let_def)
  have "textOnly c ?c1" by (rule textOnly_setFillStyle)
  also have "textOnly ?c1 ?c2" by (rule textOnly_extrusion)
  also have "textOnly ?c2 ?c3" by (rule textOnly_setShadow)
  also have "textOnly ?c3 ?c4" by (rule textOnly_setFillStyle)
  also have "textOnly ?c4 ?c5" by (rule textOnly_fillText)
  also have "textOnly ?c5 ?c6" by (rule textOnly_setShadow)
  finally show ?thesis by (simp only: eq)
qed

lemma textOnly_drawParts:
  "textOnly c (fst (foldl (drawPart b fs n) (c, x) items))"
proof (induction items arbitrary: c x)
  case Nil
  show ?case by (simp add: textOnly_refl)
next
  case (Cons item items)
  obtain c' x' where step: "drawPart b fs n (c, x) item = (c', x')"
    by (cases "drawPart b fs n (c, x) item")
  from textOnly_drawPart [of c b fs n x item] step have "textOnly c c'" by simp
  moreover from Cons [of c' x'] have "textOnly c' (fst (foldl (drawPart b fs n) (c', x') items))" .
  ultimately show ?case
    by (simp only: foldl_Cons step) (rule textOnly_trans)
qed

lemma textOnly_drawTitle: "textOnly c (fst (drawTitle b fam parts c))"
proof -
  let ?fs = "titleFontSizeOf b fam parts (width c)"
  let ?c1 = "setFont (titleFont ?fs fam) c"
  let ?c2 = "?c1\<lparr>ctx := (ctx ?c1)\<lparr>textBaseline := ''top''\<rparr>\<rparr>"
  have "textOnly c ?c2" by (simp add: textOnly_def)
  also have "textOnly ?c2 (fst (foldl (drawPart b ?fs (length parts))
      (?c2, (fromWord (width ?c2) - measureText b (font (ctx ?c2)) (fullTextOf parts)) / 2)
      (zip parts [0 ..< length parts])))"
    by (rule textOnly_drawParts)
  finally show ?thesis
    by (simp add: drawTitle_def Let_def)
qed

lemma textOnly_drawSubtitle: "textOnly c (drawSubtitle b fam s title c)"
  by (simp add: drawSubtitle_def Let_def textOnly_def)

subsection \<open>The crop\<close>

lemma unat_word_of_int_32: "0 \<le> i \<Longrightarrow> i < 2 ^ 32 \<Longrightarrow> unat (word_of_int i :: 32 word) = nat i"
  by (simp add: unat_eq_nat_uint uint_word_of_int take_bit_int_eq_self)

lemma fromWord_toUnsignedLong:
  assumes "0 \<le> x" and "x \<le> fromWord bound"
  shows "fromWord (toUnsignedLong (Fin x)) = real_of_int \<lfloor>x\<rfloor>"
proof -
  have "unat bound < 2 ^ 32" using unsigned_less [of bound, where 'a = nat] by simp
  then have "real (unat bound) < real (2 ^ 32)" by (simp only: of_nat_less_iff)
  then have "fromWord bound < 2 ^ 32" by (simp only: fromWord_def of_nat_power of_nat_numeral)
  with assms have "x < 2 ^ 32" by simp
  then have "\<lfloor>x\<rfloor> < 2 ^ 32" by (simp add: floor_less_iff)
  moreover from assms have "0 \<le> \<lfloor>x\<rfloor>" by simp
  ultimately have "unat (word_of_int \<lfloor>x\<rfloor> :: 32 word) = nat \<lfloor>x\<rfloor>"
    by (simp add: unat_word_of_int_32)
  with assms \<open>0 \<le> \<lfloor>x\<rfloor>\<close> show ?thesis
    by (simp add: toUnsignedLong_def fromWord_def)
qed

lemma fromWord_toUnsignedLong_self: "toUnsignedLong (Fin (fromWord v)) = v"
proof -
  have "\<lfloor>real (unat v)\<rfloor> = int (unat v)" by (rule floor_of_nat)
  moreover have "(word_of_int (int (unat v)) :: 32 word) = v" by simp
  moreover have "0 \<le> real (unat v)" by (rule of_nat_0_le_iff)
  ultimately show ?thesis
    by (simp only: toUnsignedLong_def fromWord_def jsnum.case if_True)
qed

subsection \<open>The cropped canvas under the text\<close>

lemma applyTitle_textOnly:
  assumes "loadImage b baseImageSrc = Some baseImage" and "hasContext2d b"
    and "targetOf b aspectRatio = (tw, th)" and "\<not> falsy tw" and "\<not> falsy th"
  shows "\<exists>c. applyTitle b baseImageSrc titleParts fontFamily subtitleOptions aspectRatio = Inr (toDataURL c)
           \<and> textOnly (croppedCanvas baseImage (toNumber tw) (toNumber th)) c"
proof -
  let ?c0 = "croppedCanvas baseImage (toNumber tw) (toNumber th)"
  let ?vp = "validPartsOf titleParts"
  let ?c1 = "if 0 < length ?vp then fst (drawTitle b fontFamily ?vp ?c0) else ?c0"
  have t1: "textOnly ?c0 ?c1"
    by (simp add: textOnly_drawTitle textOnly_refl)
  have "\<exists>title c2. applyTitle b baseImageSrc titleParts fontFamily subtitleOptions aspectRatio = Inr (toDataURL c2)
      \<and> (c2 = ?c1 \<or> (\<exists>s. c2 = drawSubtitle b fontFamily s title ?c1))"
    using assms
    by (auto simp: applyTitle_def Let_def split: option.splits prod.splits)
  then obtain title c2 where res: "applyTitle b baseImageSrc titleParts fontFamily subtitleOptions aspectRatio = Inr (toDataURL c2)"
    and c2: "c2 = ?c1 \<or> (\<exists>s. c2 = drawSubtitle b fontFamily s title ?c1)" by blast
  from c2 have "textOnly ?c1 c2"
    by (auto simp: textOnly_refl textOnly_drawSubtitle)
  with t1 have "textOnly ?c0 c2" by (rule textOnly_trans)
  with res show ?thesis by blast
qed

lemma croppedCanvas_fields:
  assumes "cropRect baseImage tw th = (sx, sy, sw, sh)"
  shows "width (croppedCanvas baseImage tw th) = toUnsignedLong sw"
    and "height (croppedCanvas baseImage tw th) = toUnsignedLong sh"
    and "drawn (croppedCanvas baseImage tw th)
          = [DrawImage9 baseImage sx sy sw sh (Fin 0) (Fin 0)
               (Fin (fromWord (toUnsignedLong sw))) (Fin (fromWord (toUnsignedLong sh))) initialState]"
  using assms by (simp_all add: croppedCanvas_def Let_def newCanvas_def)


lemma div64_pos: "0 \<le> a \<Longrightarrow> 0 < b \<Longrightarrow> nearest (a / b) < 2 ^ 1024 \<Longrightarrow> div64 (Fin a) (Fin b) = Fin (nearest (a / b))"
  by (simp add: div64_def binary64_finite)

lemma div64_inf: "0 \<le> a \<Longrightarrow> 0 < b \<Longrightarrow> 2 ^ 1024 \<le> nearest (a / b) \<Longrightarrow> div64 (Fin a) (Fin b) = PosInf"
  by (simp add: div64_def binary64_nonneg)

lemma mul64_pos: "0 \<le> a \<Longrightarrow> 0 \<le> b \<Longrightarrow> nearest (a * b) < 2 ^ 1024 \<Longrightarrow> mul64 (Fin a) (Fin b) = Fin (nearest (a * b))"
  by (simp add: mul64_def binary64_finite)

lemma sub64_pos: "b \<le> a \<Longrightarrow> nearest (a - b) < 2 ^ 1024 \<Longrightarrow> sub64 (Fin a) (Fin b) = Fin (nearest (a - b))"
  by (simp add: sub64_def jsub_def binary64_finite)

lemma offset64:
  assumes "0 \<le> s" and "s \<le> real n" and "1 \<le> real n" and "n < 2 ^ 32"
  shows "div64 (sub64 (Fin (real n)) (Fin s)) (Fin 2) = Fin (nearest (nearest (real n - s) / 2))"
proof -
  note o = crop_offset [OF assms]
  from small_finite [OF o(2) assms(4)] assms(2)
  have "sub64 (Fin (real n)) (Fin s) = Fin (nearest (real n - s))" by (intro sub64_pos) simp_all
  moreover from small_finite [OF o(4) assms(4)] o(1)
  have "div64 (Fin (nearest (real n - s))) (Fin 2) = Fin (nearest (nearest (real n - s) / 2))"
    by (intro div64_pos) simp_all
  ultimately show ?thesis by simp
qed

lemma fromWord_bounds: "fromWord v = real (unat v)" "unat (v :: 32 word) < 2 ^ 32"
  using unsigned_less [of v, where 'a = nat] by (simp_all add: fromWord_def)

lemma offset64_zero: "div64 (sub64 (Fin a) (Fin a)) (Fin 2) = Fin 0"
  by (simp add: sub64_def jsub_def div64_def binary64_def)

lemma div64_by_inf: "div64 (Fin a) PosInf = Fin 0"
  by (simp add: div64_def binary64_def)

lemma crop_geometry:
  assumes "0 < W" and "0 < H" and "0 < w" and "0 < h"
    and "W = fromWord (naturalWidth img)" and "H = fromWord (naturalHeight img)"
  shows "\<exists>sx sy sw sh.
           cropRect img (Fin w) (Fin h) = (Fin sx, Fin sy, Fin sw, Fin sh)
         \<and> 0 \<le> sx \<and> 0 \<le> sy \<and> 0 \<le> sw \<and> sw \<le> W \<and> 0 \<le> sh \<and> sh \<le> H
         \<and> Fin sx = div64 (sub64 (Fin W) (Fin sw)) (Fin 2)
         \<and> Fin sy = div64 (sub64 (Fin H) (Fin sh)) (Fin 2)
         \<and> \<bar>sx - (W - sw) / 2\<bar> \<le> W / 2 ^ 51 \<and> \<bar>sy - (H - sh) / 2\<bar> \<le> H / 2 ^ 51
         \<and> (w / h < W / H \<longrightarrow> sh = H \<and> sy = 0 \<and> \<bar>sw - H * (w / h)\<bar> \<le> W / 2 ^ 51)
         \<and> (W / H < w / h \<longrightarrow> sw = W \<and> sx = 0 \<and> \<bar>sh - W / (w / h)\<bar> \<le> H / 2 ^ 51)
         \<and> (W / H = w / h \<longrightarrow> sw = W \<and> sh = H \<and> sx = 0 \<and> sy = 0)"
proof -
  define nW nH where "nW = unat (naturalWidth img)" and "nH = unat (naturalHeight img)"
  define r where "r = w / h"
  from assms(5,6) have WH: "W = real nW" "H = real nH" by (simp_all add: fromWord_def nW_def nH_def)
  have n32: "nW < 2 ^ 32" "nH < 2 ^ 32" unfolding nW_def nH_def by (rule fromWord_bounds(2))+
  from assms(1,2) WH have n1: "1 \<le> real nW" "1 \<le> real nH" by simp_all
  from assms(3,4) have r: "0 < r" by (simp add: r_def)
  note rb = ratio_bounds [OF n32(1) n1(1) n32(2) n1(2)]
  let ?o = "nearest (W / H)" and ?t = "nearest r"
  have o: "div64 (Fin W) (Fin H) = Fin ?o"
    using assms(1,2) rb(4) unfolding WH by (intro div64_pos) simp_all
  have W0: "0 \<le> W" "0 \<le> H" using assms(1,2) by simp_all
  have zw: "0 \<le> W / 2 ^ 51" "0 \<le> H / 2 ^ 51" using W0 by simp_all
  note src = assms(5,6) [symmetric]
  consider (inf) "2 ^ 1024 \<le> ?t" | (wider) "?t < 2 ^ 1024" "?t < ?o"
    | (taller) "?t < 2 ^ 1024" "?o < ?t" | (same) "?t < 2 ^ 1024" "?o = ?t"
    by linarith
  then show ?thesis
  proof cases
    case inf
    from inf assms(3,4) have t: "div64 (Fin w) (Fin h) = PosInf"
      unfolding r_def by (intro div64_inf) simp_all
    note c = crop_taller_inf [OF n32(1) n1(1) n32(2) n1(2) r inf, folded WH, unfolded r_def]
    have "0 \<le> (0::real)" "0 \<le> H" using W0 by simp_all
    note co = crop_offset [OF this [unfolded WH] n1(2) n32(2), folded WH]
      and off = offset64 [OF this [unfolded WH] n1(2) n32(2), folded WH]
    let ?sy = "nearest (nearest (H - 0) / 2)"
    have cmp: "jgt (Fin ?o) PosInf = False" "jlt (Fin ?o) PosInf = True" by (simp_all add: jgt_def)
    have rect: "cropRect img (Fin w) (Fin h) = (Fin 0, Fin ?sy, Fin W, Fin 0)"
      by (simp only: cropRect_def Let_def src o t off cmp div64_by_inf if_True if_False)
    from c(2) assms(1,3,4) have "\<bar>0 - W / (w / h)\<bar> \<le> H / 2 ^ 51" by simp
    with rect c(1) co(3,5) W0 zw off [symmetric] offset64_zero [of W, symmetric]
    have "cropRect img (Fin w) (Fin h) = (Fin 0, Fin ?sy, Fin W, Fin 0)
         \<and> 0 \<le> (0::real) \<and> 0 \<le> ?sy \<and> 0 \<le> W \<and> W \<le> W \<and> 0 \<le> (0::real) \<and> 0 \<le> H
         \<and> Fin 0 = div64 (sub64 (Fin W) (Fin W)) (Fin 2)
         \<and> Fin ?sy = div64 (sub64 (Fin H) (Fin 0)) (Fin 2)
         \<and> \<bar>0 - (W - W) / 2\<bar> \<le> W / 2 ^ 51 \<and> \<bar>?sy - (H - 0) / 2\<bar> \<le> H / 2 ^ 51
         \<and> (w / h < W / H \<longrightarrow> 0 = H \<and> ?sy = 0 \<and> \<bar>W - H * (w / h)\<bar> \<le> W / 2 ^ 51)
         \<and> (W / H < w / h \<longrightarrow> W = W \<and> (0::real) = 0 \<and> \<bar>0 - W / (w / h)\<bar> \<le> H / 2 ^ 51)
         \<and> (W / H = w / h \<longrightarrow> W = W \<and> 0 = H \<and> (0::real) = 0 \<and> ?sy = 0)"
      by simp
    then show ?thesis by blast
  next
    case wider
    from wider(1) assms(3,4) have t: "div64 (Fin w) (Fin h) = Fin ?t"
      unfolding r_def by (intro div64_pos) simp_all
    note c = crop_wider [OF n32(1) n1(1) n32(2) n1(2) r wider(2) [unfolded WH], folded WH]
    let ?sw = "nearest (H * ?t)"
    from small_finite [OF c(5) [unfolded WH] n32(1), folded WH] c(3) W0
    have sw: "mul64 (Fin H) (Fin ?t) = Fin ?sw" by (intro mul64_pos) simp_all
    note co = crop_offset [OF c(4,5) [unfolded WH] n1(1) n32(1), folded WH]
      and off = offset64 [OF c(4,5) [unfolded WH] n1(1) n32(1), folded WH]
    let ?sx = "nearest (nearest (W - ?sw) / 2)"
    from wider(2) have cmp: "jgt (Fin ?o) (Fin ?t) = True" by (simp add: jgt_def)
    have rect: "cropRect img (Fin w) (Fin h) = (Fin ?sx, Fin 0, Fin ?sw, Fin H)"
      by (simp only: cropRect_def Let_def src o t sw off cmp if_True if_False)
    from rect c(1,4,5,6) co(3,5) W0 zw off [symmetric] offset64_zero [of H, symmetric]
    have "cropRect img (Fin w) (Fin h) = (Fin ?sx, Fin 0, Fin ?sw, Fin H)
         \<and> 0 \<le> ?sx \<and> 0 \<le> (0::real) \<and> 0 \<le> ?sw \<and> ?sw \<le> W \<and> 0 \<le> H \<and> H \<le> H
         \<and> Fin ?sx = div64 (sub64 (Fin W) (Fin ?sw)) (Fin 2)
         \<and> Fin 0 = div64 (sub64 (Fin H) (Fin H)) (Fin 2)
         \<and> \<bar>?sx - (W - ?sw) / 2\<bar> \<le> W / 2 ^ 51 \<and> \<bar>0 - (H - H) / 2\<bar> \<le> H / 2 ^ 51
         \<and> (w / h < W / H \<longrightarrow> H = H \<and> (0::real) = 0 \<and> \<bar>?sw - H * (w / h)\<bar> \<le> W / 2 ^ 51)
         \<and> (W / H < w / h \<longrightarrow> ?sw = W \<and> ?sx = 0 \<and> \<bar>H - W / (w / h)\<bar> \<le> H / 2 ^ 51)
         \<and> (W / H = w / h \<longrightarrow> ?sw = W \<and> H = H \<and> ?sx = 0 \<and> (0::real) = 0)"
      unfolding r_def by simp
    then show ?thesis by blast
  next
    case taller
    from taller(1) assms(3,4) have t: "div64 (Fin w) (Fin h) = Fin ?t"
      unfolding r_def by (intro div64_pos) simp_all
    note c = crop_taller [OF n32(1) n1(1) n32(2) n1(2) r taller(2) [unfolded WH] taller(1), folded WH]
    let ?sh = "nearest (W / ?t)"
    from small_finite [OF c(4) [unfolded WH] n32(2), folded WH] c(2) W0
    have sh: "div64 (Fin W) (Fin ?t) = Fin ?sh" by (intro div64_pos) simp_all
    note co = crop_offset [OF c(3,4) [unfolded WH] n1(2) n32(2), folded WH]
      and off = offset64 [OF c(3,4) [unfolded WH] n1(2) n32(2), folded WH]
    let ?sy = "nearest (nearest (H - ?sh) / 2)"
    from taller(2) have cmp: "jgt (Fin ?o) (Fin ?t) = False" "jlt (Fin ?o) (Fin ?t) = True"
      by (simp_all add: jgt_def)
    have rect: "cropRect img (Fin w) (Fin h) = (Fin 0, Fin ?sy, Fin W, Fin ?sh)"
      by (simp only: cropRect_def Let_def src o t sh off cmp if_True if_False)
    from rect c(1,3,4,5) co(3,5) W0 zw off [symmetric] offset64_zero [of W, symmetric]
    have "cropRect img (Fin w) (Fin h) = (Fin 0, Fin ?sy, Fin W, Fin ?sh)
         \<and> 0 \<le> (0::real) \<and> 0 \<le> ?sy \<and> 0 \<le> W \<and> W \<le> W \<and> 0 \<le> ?sh \<and> ?sh \<le> H
         \<and> Fin 0 = div64 (sub64 (Fin W) (Fin W)) (Fin 2)
         \<and> Fin ?sy = div64 (sub64 (Fin H) (Fin ?sh)) (Fin 2)
         \<and> \<bar>0 - (W - W) / 2\<bar> \<le> W / 2 ^ 51 \<and> \<bar>?sy - (H - ?sh) / 2\<bar> \<le> H / 2 ^ 51
         \<and> (w / h < W / H \<longrightarrow> ?sh = H \<and> ?sy = 0 \<and> \<bar>W - H * (w / h)\<bar> \<le> W / 2 ^ 51)
         \<and> (W / H < w / h \<longrightarrow> W = W \<and> (0::real) = 0 \<and> \<bar>?sh - W / (w / h)\<bar> \<le> H / 2 ^ 51)
         \<and> (W / H = w / h \<longrightarrow> W = W \<and> ?sh = H \<and> (0::real) = 0 \<and> ?sy = 0)"
      unfolding r_def by simp
    then show ?thesis by blast
  next
    case same
    from same(1) assms(3,4) have t: "div64 (Fin w) (Fin h) = Fin ?t"
      unfolding r_def by (intro div64_pos) simp_all
    note c = crop_same [OF n32(1) n1(1) n32(2) n1(2) r same(2) [unfolded WH], folded WH]
    from same(2) have cmp: "jgt (Fin ?o) (Fin ?t) = False" "jlt (Fin ?o) (Fin ?t) = False"
      by (simp_all add: jgt_def)
    have rect: "cropRect img (Fin w) (Fin h) = (Fin 0, Fin 0, Fin W, Fin H)"
      by (simp only: cropRect_def Let_def src o t cmp if_True if_False)
    from rect c W0 zw offset64_zero [of W, symmetric] offset64_zero [of H, symmetric]
    have "cropRect img (Fin w) (Fin h) = (Fin 0, Fin 0, Fin W, Fin H)
         \<and> 0 \<le> (0::real) \<and> 0 \<le> (0::real) \<and> 0 \<le> W \<and> W \<le> W \<and> 0 \<le> H \<and> H \<le> H
         \<and> Fin 0 = div64 (sub64 (Fin W) (Fin W)) (Fin 2)
         \<and> Fin 0 = div64 (sub64 (Fin H) (Fin H)) (Fin 2)
         \<and> \<bar>0 - (W - W) / 2\<bar> \<le> W / 2 ^ 51 \<and> \<bar>0 - (H - H) / 2\<bar> \<le> H / 2 ^ 51
         \<and> (w / h < W / H \<longrightarrow> H = H \<and> (0::real) = 0 \<and> \<bar>W - H * (w / h)\<bar> \<le> W / 2 ^ 51)
         \<and> (W / H < w / h \<longrightarrow> W = W \<and> (0::real) = 0 \<and> \<bar>H - W / (w / h)\<bar> \<le> H / 2 ^ 51)
         \<and> (W / H = w / h \<longrightarrow> W = W \<and> H = H \<and> (0::real) = 0 \<and> (0::real) = 0)"
      unfolding r_def by simp
    then show ?thesis by blast
  qed
qed

text \<open>
  The rounding can cost a whole pixel: for a square image of 49 pixels and the ratio
  1:49 the width of the part is the double just below 1, and the canvas has no width.
\<close>

lemma cropRect_example_49:
  "cropRect \<lparr>src = s, naturalWidth = 49, naturalHeight = 49\<rparr> (Fin 1) (Fin 49)
     = (Fin 24, Fin 0, Fin (9007199254740991 / 9007199254740992), Fin 49)"
  "width (croppedCanvas \<lparr>src = s, naturalWidth = 49, naturalHeight = 49\<rparr> (Fin 1) (Fin 49)) = 0"
  by (simp_all add: croppedCanvas_def toUnsignedLong_def cropRect_def fromWord_def rounding)


section \<open>Properties of the remote enhancement\<close>

subsection \<open>The blocked request\<close>

lemma enhanceImage_reply:
  assumes "buildParts file options aspectRatio = Inr parts" and "generateContent parts = Inr r"
  shows "fst (enhanceImage generateContent file options aspectRatio)
           = (case readResponse r of
                Inr imageData \<Rightarrow> Inr imageData
              | Inl (ErrorObject f) \<Rightarrow> Inl (GeminiApiError f)
              | Inl OtherValue \<Rightarrow> Inl UnknownError)"
  using assms by (simp add: enhanceImage_def tryEnhance_def split: sum.split thrown.split)

lemma readResponse_blocked_iff:
  "readResponse r = Inl (ErrorObject (RequestBlocked reason))
     \<longleftrightarrow> (\<exists>c cs. candidates r = Some (c # cs) \<and> blockedReason c = Some reason)"
  by (auto simp: readResponse_def Let_def split: option.splits list.splits)

lemma blockedReason_iff:
  "blockedReason c = Some reason
     \<longleftrightarrow> finishReason c = Some reason \<and> reason \<noteq> [] \<and> reason \<noteq> ''STOP'' \<and> reason \<noteq> ''MAX_TOKENS''"
  by (auto simp: blockedReason_def split: option.splits if_splits)

subsection \<open>Reading a reply that is not blocked\<close>

lemma firstInlineData_first:
  assumes "\<forall>q \<in> set before. inlineData q = None" and "inlineData p = Some payload"
  shows "firstInlineData (before @ p # after) = Some payload"
  using assms by (induction before) simp_all

lemma firstInlineData_none: "\<forall>q \<in> set ps. inlineData q = None \<Longrightarrow> firstInlineData ps = None"
  by (induction ps) simp_all

lemma textPartsOf_filter:
  "textPartsOf ps = filter (\<lambda>t. t \<noteq> []) (List.map_filter responseText ps)"
  by (induction ps) (simp_all add: List.map_filter_simps split: option.split)

lemma blockedReason_STOP: "finishReason c = Some ''STOP'' \<Longrightarrow> blockedReason c = None"
  by (simp add: blockedReason_def)

lemma readResponse_image:
  assumes "candidates r = Some (c # cs)" and "blockedReason c = None"
    and "contentParts c = Some (before @ p # after)" and "\<forall>q \<in> set before. inlineData q = None"
    and "inlineData p = Some payload"
  shows "readResponse r = Inr (data payload)"
  using assms(1,2,3) firstInlineData_first [OF assms(4,5)]
  by (simp add: readResponse_def)

lemma readResponse_text:
  assumes "candidates r = Some (c # cs)" and "blockedReason c = None" and "contentParts c = Some ps"
    and "\<forall>q \<in> set ps. inlineData q = None" and "textPartsOf ps \<noteq> []"
  shows "readResponse r = Inl (ErrorObject (TextInsteadOfImage (trim (join (textPartsOf ps)))))"
  using assms(1,2,3,5) firstInlineData_none [OF assms(4)]
  by (simp add: readResponse_def Let_def)

lemma readResponse_nothing:
  assumes "candidates r = None \<or> candidates r = Some []
     \<or> (\<exists>c cs. candidates r = Some (c # cs) \<and> blockedReason c = None
           \<and> (contentParts c = None
                \<or> (\<exists>ps. contentParts c = Some ps \<and> (\<forall>q \<in> set ps. inlineData q = None)
                       \<and> textPartsOf ps = [])))"
  shows "readResponse r = Inl (ErrorObject NoImageReturned)"
  using assms by (auto simp: readResponse_def Let_def firstInlineData_none)

lemma enhanceImage_one_request: "length (snd (enhanceImage generateContent file options aspectRatio)) \<le> 1"
  by (simp add: enhanceImage_def tryEnhance_def split: sum.split thrown.split prod.split)

lemma reply_cases:
  assumes "buildParts file options aspectRatio = Inr parts" and "generateContent parts = Inr r"
  shows "(\<forall>c cs before p after payload.
            candidates r = Some (c # cs) \<and> finishReason c = Some ''STOP''
            \<and> contentParts c = Some (before @ p # after)
            \<and> (\<forall>q \<in> set before. inlineData q = None) \<and> inlineData p = Some payload \<longrightarrow>
            fst (enhanceImage generateContent file options aspectRatio) = Inr (data payload))
       \<and> (\<forall>c cs ps texts.
            candidates r = Some (c # cs) \<and> finishReason c = Some ''STOP'' \<and> contentParts c = Some ps
            \<and> (\<forall>q \<in> set ps. inlineData q = None)
            \<and> texts = filter (\<lambda>t. t \<noteq> []) (List.map_filter responseText ps) \<and> texts \<noteq> [] \<longrightarrow>
            fst (enhanceImage generateContent file options aspectRatio)
              = Inl (GeminiApiError (TextInsteadOfImage (trim (join texts)))))
       \<and> (candidates r = None \<or> candidates r = Some []
            \<or> (\<exists>c cs. candidates r = Some (c # cs) \<and> finishReason c = Some ''STOP''
                  \<and> (contentParts c = None
                       \<or> (\<exists>ps. contentParts c = Some ps \<and> (\<forall>q \<in> set ps. inlineData q = None)
                              \<and> filter (\<lambda>t. t \<noteq> []) (List.map_filter responseText ps) = []))) \<longrightarrow>
            fst (enhanceImage generateContent file options aspectRatio) = Inl (GeminiApiError NoImageReturned))"
proof -
  note reply = enhanceImage_reply [where generateContent = generateContent, OF assms]
  have 1: "fst (enhanceImage generateContent file options aspectRatio) = Inr (data payload)"
    if "candidates r = Some (c # cs)" "finishReason c = Some ''STOP''"
      "contentParts c = Some (before @ p # after)"
      "\<forall>q \<in> set before. inlineData q = None" "inlineData p = Some payload"
    for c cs before p after payload
    using readResponse_image [OF that(1) blockedReason_STOP [OF that(2)] that(3,4,5)]
    by (simp add: reply)
  have 2: "fst (enhanceImage generateContent file options aspectRatio)
      = Inl (GeminiApiError (TextInsteadOfImage (trim (join texts))))"
    if "candidates r = Some (c # cs)" "finishReason c = Some ''STOP''" "contentParts c = Some ps"
      "\<forall>q \<in> set ps. inlineData q = None"
      "texts = filter (\<lambda>t. t \<noteq> []) (List.map_filter responseText ps)" "texts \<noteq> []"
    for c cs ps texts
  proof -
    from that(5) have t: "textPartsOf ps = texts" by (simp add: textPartsOf_filter)
    with that(6) have "textPartsOf ps \<noteq> []" by simp
    from readResponse_text [OF that(1) blockedReason_STOP [OF that(2)] that(3,4) this] t
    show ?thesis by (simp add: reply)
  qed
  have 3: "fst (enhanceImage generateContent file options aspectRatio) = Inl (GeminiApiError NoImageReturned)"
    if "candidates r = None \<or> candidates r = Some []
        \<or> (\<exists>c cs. candidates r = Some (c # cs) \<and> finishReason c = Some ''STOP''
              \<and> (contentParts c = None
                   \<or> (\<exists>ps. contentParts c = Some ps \<and> (\<forall>q \<in> set ps. inlineData q = None)
                          \<and> filter (\<lambda>t. t \<noteq> []) (List.map_filter responseText ps) = [])))"
  proof -
    from that have "candidates r = None \<or> candidates r = Some []
     \<or> (\<exists>c cs. candidates r = Some (c # cs) \<and> blockedReason c = None
           \<and> (contentParts c = None
                \<or> (\<exists>ps. contentParts c = Some ps \<and> (\<forall>q \<in> set ps. inlineData q = None)
                       \<and> textPartsOf ps = [])))"
      unfolding textPartsOf_filter using blockedReason_STOP by blast
    from readResponse_nothing [OF this] show ?thesis by (simp add: reply)
  qed
  show ?thesis
  proof (intro conjI allI impI)
    fix c cs before p after payload
    assume "candidates r = Some (c # cs) \<and> finishReason c = Some ''STOP''
            \<and> contentParts c = Some (before @ p # after)
            \<and> (\<forall>q \<in> set before. inlineData q = None) \<and> inlineData p = Some payload"
    then show "fst (enhanceImage generateContent file options aspectRatio) = Inr (data payload)"
      by (elim conjE) (rule 1)
  next
    fix c cs ps texts
    assume "candidates r = Some (c # cs) \<and> finishReason c = Some ''STOP'' \<and> contentParts c = Some ps
            \<and> (\<forall>q \<in> set ps. inlineData q = None)
            \<and> texts = filter (\<lambda>t. t \<noteq> []) (List.map_filter responseText ps) \<and> texts \<noteq> []"
    then show "fst (enhanceImage generateContent file options aspectRatio)
              = Inl (GeminiApiError (TextInsteadOfImage (trim (join texts))))"
      by (elim conjE) (rule 2)
  next
    assume "candidates r = None \<or> candidates r = Some []
            \<or> (\<exists>c cs. candidates r = Some (c # cs) \<and> finishReason c = Some ''STOP''
                  \<and> (contentParts c = None
                       \<or> (\<exists>ps. contentParts c = Some ps \<and> (\<forall>q \<in> set ps. inlineData q = None)
                              \<and> filter (\<lambda>t. t \<noteq> []) (List.map_filter responseText ps) = [])))"
    then show "fst (enhanceImage generateContent file options aspectRatio) = Inl (GeminiApiError NoImageReturned)"
      by (rule 3)
  qed
qed

lemma enhanceImage_wraps:
  "fst (enhanceImage generateContent file options aspectRatio)
     = (case fst (tryEnhance generateContent file options aspectRatio) of
          Inr imageData \<Rightarrow> Inr imageData
        | Inl (ErrorObject f) \<Rightarrow> Inl (GeminiApiError f)
        | Inl OtherValue \<Rightarrow> Inl UnknownError)"
  by (simp add: enhanceImage_def split: sum.split thrown.split prod.split)

lemma buildParts_example:
  "buildParts \<lparr>fileName = ''shoe.png'', fileType = ''image/png'',
                readAsDataURL = Some ''data:image/png;base64,AAAA'', decoded = None\<rparr>
     \<lparr>style = default, color1 = Some ''#4ade80'', color2 = Some ''#3b82f6'', backgroundImage = None\<rparr> ''1:1''
   = Inr [InlineData ''AAAA'' ''image/png'', Text \<lparr>instruction = DefaultGradient, ratio = ''1:1''\<rparr>]"
  by (simp add: buildParts_def fileToBase64_def element_def generatePrompt_def)

section \<open>The usage counters: claims\<close>

text \<open>
  Claim C5. Starting from an empty storage, let the application be used on three
  consecutive calendar days of the local time zone: the uses \<open>day1\<close> two days ago, the
  uses \<open>day2\<close> yesterday and the uses \<open>day3\<close> today, each at an instant of its own.
  The statistics then computed today from the storage show the number of today's uses as
  \<open>today\<close>, the number of yesterday's uses as \<open>yesterday\<close>, and the number of all
  uses both as \<open>last7Days\<close> and as \<open>total\<close>.
\<close>

theorem three_consecutive_days:
  assumes "\<forall>d \<in> set day1. localDays d = localDays now - 2"
    and "\<forall>d \<in> set day2. localDays d = localDays now - 1"
    and "\<forall>d \<in> set day3. localDays d = localDays now"
  shows "today (statsAfter Number now (day1 @ day2 @ day3)) = length day3
       \<and> yesterday (statsAfter Number now (day1 @ day2 @ day3)) = length day2
       \<and> last7Days (statsAfter Number now (day1 @ day2 @ day3)) = length day1 + length day2 + length day3
       \<and> total (statsAfter Number now (day1 @ day2 @ day3)) = length day1 + length day2 + length day3"
proof -
  let ?dates = "day1 @ day2 @ day3"
  let ?st = "incrementUsages Number ?dates None"
  have shape: "newShape ?st"
    by (rule newShape_incrementUsages) (simp add: newShape_def)
  have empty: "countOr0 (countsOf None) key = 0" for key
    by (simp add: countsOf_def countOr0_def)
  have c: "countOr0 (countsOf ?st) (getISODateString (setDate now (getDate now - i)))
      = (if i = 2 then length day1 else 0) + (if i = 1 then length day2 else 0)
        + (if i = 0 then length day3 else 0)" for i
    by (simp only: countsOf_incrementUsages empty count_on_day three_days_count [OF assms] add_0)
  have c0: "countOr0 (countsOf ?st) (getISODateString now) = length day3"
    using three_days_count [OF assms, of 0]
    by (simp add: countsOf_incrementUsages empty count_today)
  have seven: "[0 ..< 7] = [0, 1, 2, 3, 4, 5, 6::nat]"
    by (simp add: upt_rec)
  have "totalOf None = 0" by (simp add: totalOf_def)
  then have t: "totalOf ?st = length day1 + length day2 + length day3"
    by (simp add: totalOf_incrementUsages)
  show ?thesis
    using c [of 1]
    by (simp add: statsAfter_def mountEffect_newShape [OF shape] c0 c seven t)
qed

text \<open>
  Three uses on 2024-03-08, one on 2024-03-09 and two on 2024-03-10, in a zone seven
  hours ahead of UTC, seen on 2024-03-10 at 05:00.
\<close>

theorem three_consecutive_days_witness:
  "today (statsAfter decimalNumber \<lparr>getTime = 1710021600000, getTimezoneOffset = - 420\<rparr>
      ([\<lparr>getTime = 1709860000000, getTimezoneOffset = - 420\<rparr>,
        \<lparr>getTime = 1709870000000, getTimezoneOffset = - 420\<rparr>,
        \<lparr>getTime = 1709880000000, getTimezoneOffset = - 420\<rparr>]
       @ [\<lparr>getTime = 1709950000000, getTimezoneOffset = - 420\<rparr>]
       @ [\<lparr>getTime = 1710010800000, getTimezoneOffset = - 420\<rparr>,
          \<lparr>getTime = 1710021600000, getTimezoneOffset = - 420\<rparr>])) = 2
   \<and> yesterday (statsAfter decimalNumber \<lparr>getTime = 1710021600000, getTimezoneOffset = - 420\<rparr>
      ([\<lparr>getTime = 1709860000000, getTimezoneOffset = - 420\<rparr>,
        \<lparr>getTime = 1709870000000, getTimezoneOffset = - 420\<rparr>,
        \<lparr>getTime = 1709880000000, getTimezoneOffset = - 420\<rparr>]
       @ [\<lparr>getTime = 1709950000000, getTimezoneOffset = - 420\<rparr>]
       @ [\<lparr>getTime = 1710010800000, getTimezoneOffset = - 420\<rparr>,
          \<lparr>getTime = 1710021600000, getTimezoneOffset = - 420\<rparr>])) = 1
   \<and> last7Days (statsAfter decimalNumber \<lparr>getTime = 1710021600000, getTimezoneOffset = - 420\<rparr>
      ([\<lparr>getTime = 1709860000000, getTimezoneOffset = - 420\<rparr>,
        \<lparr>getTime = 1709870000000, getTimezoneOffset = - 420\<rparr>,
        \<lparr>getTime = 1709880000000, getTimezoneOffset = - 420\<rparr>]
       @ [\<lparr>getTime = 1709950000000, getTimezoneOffset = - 420\<rparr>]
       @ [\<lparr>getTime = 1710010800000, getTimezoneOffset = - 420\<rparr>,
          \<lparr>getTime = 1710021600000, getTimezoneOffset = - 420\<rparr>])) = 6
   \<and> total (statsAfter decimalNumber \<lparr>getTime = 1710021600000, getTimezoneOffset = - 420\<rparr>
      ([\<lparr>getTime = 1709860000000, getTimezoneOffset = - 420\<rparr>,
        \<lparr>getTime = 1709870000000, getTimezoneOffset = - 420\<rparr>,
        \<lparr>getTime = 1709880000000, getTimezoneOffset = - 420\<rparr>]
       @ [\<lparr>getTime = 1709950000000, getTimezoneOffset = - 420\<rparr>]
       @ [\<lparr>getTime = 1710010800000, getTimezoneOffset = - 420\<rparr>,
          \<lparr>getTime = 1710021600000, getTimezoneOffset = - 420\<rparr>])) = 6"
  using three_consecutive_days [of
      "[\<lparr>getTime = 1709860000000, getTimezoneOffset = - 420\<rparr>,
        \<lparr>getTime = 1709870000000, getTimezoneOffset = - 420\<rparr>,
        \<lparr>getTime = 1709880000000, getTimezoneOffset = - 420\<rparr>]"
      "\<lparr>getTime = 1710021600000, getTimezoneOffset = - 420\<rparr>"
      "[\<lparr>getTime = 1709950000000, getTimezoneOffset = - 420\<rparr>]"
      "[\<lparr>getTime = 1710010800000, getTimezoneOffset = - 420\<rparr>,
        \<lparr>getTime = 1710021600000, getTimezoneOffset = - 420\<rparr>]" decimalNumber]
  by (simp add: localDays_def msPerDay_def)

text \<open>
  Claim C9. On a stored record of the current shape (a total and daily counts, nothing of
  the old shape), one \<^verbatim>\<open>incrementUsage\<close> stores a record whose total is one more,
  whose count for today's local date is one more (it is 1 when today had no entry), and
  whose count for every other date is what it was.
\<close>

theorem incrementUsage_frame:
  assumes "storage = Some (Json stored)"
    and "oldToday stored = None"
    and "storedTotal stored = Some t"
    and "dailyCounts stored = Some counts"
  shows "\<exists>counts'.
           fst (incrementUsage Number now storage)
             = Some (Json \<lparr>oldToday = None, storedTotal = Some (t + 1), dailyCounts = Some counts'\<rparr>)
         \<and> map_of counts' (getISODateString now) = Some (countOr0 counts (getISODateString now) + 1)
         \<and> (map_of counts (getISODateString now) = None \<longrightarrow> map_of counts' (getISODateString now) = Some 1)
         \<and> (\<forall>key. key \<noteq> getISODateString now \<longrightarrow> map_of counts' key = map_of counts key)"
  using assms
  by (simp add: incrementUsage_def Let_def map_of_update_same map_of_update_other countOr0_def)

theorem incrementUsage_frame_witness:
  "\<exists>counts'.
     fst (incrementUsage decimalNumber \<lparr>getTime = 1710021600000, getTimezoneOffset = - 420\<rparr>
         (Some (Json \<lparr>oldToday = None, storedTotal = Some 5,
                   dailyCounts = Some [(''2024-03-09'', 3), (''2024-03-10'', 2)]\<rparr>)))
       = Some (Json \<lparr>oldToday = None, storedTotal = Some 6, dailyCounts = Some counts'\<rparr>)
     \<and> map_of counts' ''2024-03-10'' = Some 3
     \<and> map_of counts' ''2024-03-09'' = Some 3
     \<and> map_of counts' ''2024-03-08'' = None"
  using incrementUsage_frame [of
      "Some (Json \<lparr>oldToday = None, storedTotal = Some 5,
                   dailyCounts = Some [(''2024-03-09'', 3), (''2024-03-10'', 2)]\<rparr>)"
      "\<lparr>oldToday = None, storedTotal = Some 5,
                   dailyCounts = Some [(''2024-03-09'', 3), (''2024-03-10'', 2)]\<rparr>"
      5 "[(''2024-03-09'', 3), (''2024-03-10'', 2)]" decimalNumber
      "\<lparr>getTime = 1710021600000, getTimezoneOffset = - 420\<rparr>"]
  by (auto simp: local_date_example countOr0_def)

text \<open>
  The migration of a record of the old shape keeps the total, and keeps the count of
  the stored day exactly when the stored date is the date part of
  \<^verbatim>\<open>new Date().toISOString()\<close>, which is the current date in UTC.
\<close>

lemma mountEffect_migrates:
  assumes "oldToday stored = Some (date, n)" and "storedTotal stored = Some t"
    and "dailyCounts stored = None"
  shows "fst (mountEffect Number now (Some (Json stored)))
     = Some (Json \<lparr>oldToday = None, storedTotal = Some t,
          dailyCounts = Some (if date = toISOString_date (getTime now) then [(date, n)] else [])\<rparr>)"
  using assms by (simp add: mountEffect_def Let_def)

text \<open>
  Claim C2 says that the migration compares the stored date with the current date in the
  local time zone, as \<^verbatim>\<open>incrementUsage\<close> and \<^verbatim>\<open>calculateStats\<close> do through
  \<^verbatim>\<open>getISODateString\<close>. The code compares with the date in UTC. On 2024-03-10 at 05:00
  in a zone seven hours ahead of UTC, which is 2024-03-09 22:00 UTC, the local date is
  2024-03-10 and the date compared with is 2024-03-09: a count stored for 2024-03-10, the
  local today, is discarded by the migration, and a count stored for 2024-03-09, the
  local yesterday, is kept.
\<close>

theorem migration_compares_with_utc_date:
  "getISODateString \<lparr>getTime = 1710021600000, getTimezoneOffset = - 420\<rparr> = ''2024-03-10''
   \<and> toISOString_date (getTime \<lparr>getTime = 1710021600000, getTimezoneOffset = - 420\<rparr>) = ''2024-03-09''
   \<and> fst (mountEffect decimalNumber \<lparr>getTime = 1710021600000, getTimezoneOffset = - 420\<rparr>
        (Some (Json \<lparr>oldToday = Some (''2024-03-10'', 4), storedTotal = Some 9, dailyCounts = None\<rparr>)))
      = Some (Json \<lparr>oldToday = None, storedTotal = Some 9, dailyCounts = Some []\<rparr>)
   \<and> fst (mountEffect decimalNumber \<lparr>getTime = 1710021600000, getTimezoneOffset = - 420\<rparr>
        (Some (Json \<lparr>oldToday = Some (''2024-03-09'', 4), storedTotal = Some 9, dailyCounts = None\<rparr>)))
      = Some (Json \<lparr>oldToday = None, storedTotal = Some 9, dailyCounts = Some [(''2024-03-09'', 4)]\<rparr>)"
  by (simp add: local_date_example utc_date_example mountEffect_def Let_def)

section \<open>The compositing: claims\<close>

text \<open>
  Claim C1, as the code has it. The font size chosen for the title lies between 10 and
  200; the upper-cased, space-joined text of the non-empty segments is measured wider
  than the canvas width minus 80 at every size above the chosen one, up to 200; and at
  the chosen size it is measured within that width unless the chosen size is 10. So the
  chosen size is the largest size from 11 to 200 at which the text fits, and 10 when
  there is none, whether the text fits at size 10 or not.
\<close>

theorem title_font_size_search:
  "10 \<le> titleFontSizeOf b fontFamily (validPartsOf titleParts) canvasWidth
   \<and> titleFontSizeOf b fontFamily (validPartsOf titleParts) canvasWidth \<le> 200
   \<and> (\<forall>s. titleFontSizeOf b fontFamily (validPartsOf titleParts) canvasWidth < s \<and> s \<le> 200 \<longrightarrow>
          \<not> measureText b (titleFont s fontFamily) (fullTextOf (validPartsOf titleParts))
              \<le> fromWord canvasWidth - 80)
   \<and> (10 < titleFontSizeOf b fontFamily (validPartsOf titleParts) canvasWidth \<longrightarrow>
          measureText b (titleFont (titleFontSizeOf b fontFamily (validPartsOf titleParts) canvasWidth) fontFamily)
            (fullTextOf (validPartsOf titleParts)) \<le> fromWord canvasWidth - 80)"
  unfolding titleFontSizeOf_def Let_def
  using fitFontSize_le [of b fontFamily "fullTextOf (validPartsOf titleParts)" "fromWord canvasWidth - 80" 200]
    fitFontSize_ge [of 200 b fontFamily "fullTextOf (validPartsOf titleParts)" "fromWord canvasWidth - 80"]
    fitFontSize_fits [of b fontFamily "fullTextOf (validPartsOf titleParts)" "fromWord canvasWidth - 80" 200]
    fitFontSize_largest [of b fontFamily "fullTextOf (validPartsOf titleParts)" "fromWord canvasWidth - 80" 200]
  by auto


text \<open>
  With a text of 11 characters, each measured half the font size wide, and a canvas 1000
  wide, the chosen size is 167.
\<close>

theorem title_font_size_search_witness:
  "titleFontSizeOf
     \<lparr>loadImage = (\<lambda>s. None), hasContext2d = True,
      measureText = (\<lambda>f s. px f * real (length s) / 2), jsNumber = decimalNumber\<rparr>
     ''Oswald'' (validPartsOf [\<lparr>partText = ''Hello'', partColor = ''#FFFFFF''\<rparr>,
                               \<lparr>partText = ''world'', partColor = ''#FFD700''\<rparr>]) 1000 = 167"
proof -
  let ?b = "\<lparr>loadImage = (\<lambda>s. None), hasContext2d = True,
      measureText = (\<lambda>f s. px f * real (length s) / 2), jsNumber = decimalNumber\<rparr>"
  let ?parts = "[\<lparr>partText = ''Hello'', partColor = ''#FFFFFF''\<rparr>,
                 \<lparr>partText = ''world'', partColor = ''#FFD700''\<rparr>]"
  let ?r = "titleFontSizeOf ?b ''Oswald'' (validPartsOf ?parts) 1000"
  have len: "length (fullTextOf (validPartsOf ?parts)) = 11"
    by (simp add: fullTextOf_def validPartsOf_def trim_def isWhiteSpace_def toUpperCase_def)
  have fits: "measureText ?b (titleFont s ''Oswald'') (fullTextOf (validPartsOf ?parts))
      \<le> fromWord 1000 - 80 \<longleftrightarrow> s \<le> 167" for s
  proof -
    have "real s * 11 / 2 \<le> 920 \<longleftrightarrow> real s * 11 \<le> 1840" by simp
    also have "\<dots> \<longleftrightarrow> real (s * 11) \<le> real 1840" by simp
    also have "\<dots> \<longleftrightarrow> s * 11 \<le> 1840" by (simp only: of_nat_le_iff)
    also have "\<dots> \<longleftrightarrow> s \<le> 167" by arith
    finally show ?thesis by (simp add: len titleFont_def fromWord_def)
  qed
  from title_font_size_search [of ?b "''Oswald''" ?parts 1000]
  have a: "\<forall>s. ?r < s \<and> s \<le> 200 \<longrightarrow> \<not> s \<le> 167" and b: "10 < ?r \<longrightarrow> ?r \<le> 167" and c: "10 \<le> ?r"
    unfolding fits by blast+
  from a have "\<not> ?r < 167" by auto
  then have lo: "167 \<le> ?r" by (rule leI)
  then have "10 < ?r" by (rule less_le_trans [rotated]) simp
  with b have hi: "?r \<le> 167" by (rule mp)
  from hi lo show ?thesis by (rule order_antisym)
qed

text \<open>
  Claim C1 as stated fails where the text fits at no size from 10 to 200: on a canvas 120
  wide the same text is measured 55 wide at size 10, wider than the 40 allowed, and the
  chosen size is 10.
\<close>

theorem title_font_size_counterexample:
  "titleFontSizeOf
     \<lparr>loadImage = (\<lambda>s. None), hasContext2d = True,
      measureText = (\<lambda>f s. px f * real (length s) / 2), jsNumber = decimalNumber\<rparr>
     ''Oswald'' (validPartsOf [\<lparr>partText = ''Hello'', partColor = ''#FFFFFF''\<rparr>,
                               \<lparr>partText = ''world'', partColor = ''#FFD700''\<rparr>]) 120 = 10
   \<and> \<not> measureText
        \<lparr>loadImage = (\<lambda>s. None), hasContext2d = True,
         measureText = (\<lambda>f s. px f * real (length s) / 2), jsNumber = decimalNumber\<rparr>
        (titleFont 10 ''Oswald'')
        (fullTextOf (validPartsOf [\<lparr>partText = ''Hello'', partColor = ''#FFFFFF''\<rparr>,
                                   \<lparr>partText = ''world'', partColor = ''#FFD700''\<rparr>]))
      \<le> fromWord 120 - 80"
proof -
  let ?b = "\<lparr>loadImage = (\<lambda>s. None), hasContext2d = True,
      measureText = (\<lambda>f s. px f * real (length s) / 2), jsNumber = decimalNumber\<rparr>"
  let ?parts = "[\<lparr>partText = ''Hello'', partColor = ''#FFFFFF''\<rparr>,
                 \<lparr>partText = ''world'', partColor = ''#FFD700''\<rparr>]"
  let ?r = "titleFontSizeOf ?b ''Oswald'' (validPartsOf ?parts) 120"
  have len: "length (fullTextOf (validPartsOf ?parts)) = 11"
    by (simp add: fullTextOf_def validPartsOf_def trim_def isWhiteSpace_def toUpperCase_def)
  have fits: "measureText ?b (titleFont s ''Oswald'') (fullTextOf (validPartsOf ?parts))
      \<le> fromWord 120 - 80 \<longleftrightarrow> s \<le> 7" for s
  proof -
    have "real s * 11 / 2 \<le> 40 \<longleftrightarrow> real s * 11 \<le> 80" by simp
    also have "\<dots> \<longleftrightarrow> real (s * 11) \<le> real 80" by simp
    also have "\<dots> \<longleftrightarrow> s * 11 \<le> 80" by (simp only: of_nat_le_iff)
    also have "\<dots> \<longleftrightarrow> s \<le> 7" by arith
    finally show ?thesis by (simp add: len titleFont_def fromWord_def)
  qed
  have "10 \<le> ?r" unfolding titleFontSizeOf_def Let_def by (rule fitFontSize_ge) simp
  moreover have "\<not> 10 < ?r"
  proof
    assume "10 < ?r"
    then have "measureText ?b (titleFont ?r ''Oswald'') (fullTextOf (validPartsOf ?parts)) \<le> fromWord 120 - 80"
      unfolding titleFontSizeOf_def Let_def by (rule fitFontSize_fits)
    with fits have "?r \<le> 7" by blast
    with \<open>10 < ?r\<close> show False by simp
  qed
  ultimately have "?r = 10" by simp
  moreover from fits [of 10] have "\<not> measureText ?b (titleFont 10 ''Oswald'') (fullTextOf (validPartsOf ?parts))
      \<le> fromWord 120 - 80" by simp
  ultimately show ?thesis by simp
qed

text \<open>
  Claim C4. Let the base image have loaded with a natural width \<open>W\<close> and height \<open>H\<close> that
  are positive, let the canvas give a context, and let the first two pieces of the aspect
  ratio string convert to positive numbers \<open>w\<close> and \<open>h\<close>. Numbers are doubles: every
  operation of the code is rounded. Then \<^verbatim>\<open>applyTitle\<close> gives a picture whose first
  drawing is the part \<open>(sx, sy, sw, sh)\<close> of the base image stretched over the whole canvas,
  followed by text only, where: the canvas is as wide and as high as \<open>sw\<close> and \<open>sh\<close> cut
  to whole pixels; the part lies in the image; the part is centred, each offset being
  half of what is cut off in its direction, as computed in doubles, which is within
  \<open>W / 2^51\<close> or \<open>H / 2^51\<close> of the exact half; and only the direction in which the image
  exceeds the target ratio is cut. When \<open>w / h < W / H\<close> the height is kept and the width
  \<open>sw\<close> is within \<open>W / 2^51\<close> of \<open>H * (w / h)\<close>, so that the canvas is \<open>H\<close> high and less
  than \<open>1 + W / 2^51\<close> pixels away from \<open>H * (w / h)\<close> in width; when \<open>W / H < w / h\<close> the
  width is kept and the height \<open>sh\<close> is within \<open>H / 2^51\<close> of \<open>W / (w / h)\<close>, so that the
  canvas is \<open>W\<close> wide and less than \<open>1 + H / 2^51\<close> pixels away from \<open>W / (w / h)\<close> in
  height; when the ratios agree nothing is cut. This is the target ratio within the
  tolerance of the rounding of doubles and of the cut to whole pixels.
\<close>

theorem applyTitle_centered_crop:
  assumes "loadImage b baseImageSrc = Some baseImage" and "hasContext2d b"
    and "split CHR '':'' aspectRatio = first # second # rest"
    and "jsNumber b first = Fin w" and "jsNumber b second = Fin h" and "0 < w" and "0 < h"
    and "0 < fromWord (naturalWidth baseImage)" and "0 < fromWord (naturalHeight baseImage)"
  shows "\<exists>pic sx sy sw sh texts.
           applyTitle b baseImageSrc titleParts fontFamily subtitleOptions aspectRatio = Inr pic
         \<and> content pic
             = DrawImage9 baseImage (Fin sx) (Fin sy) (Fin sw) (Fin sh) (Fin 0) (Fin 0)
                 (Fin (fromWord (pixelWidth pic))) (Fin (fromWord (pixelHeight pic))) initialState # texts
         \<and> list_all isText texts
         \<and> fromWord (pixelWidth pic) = real_of_int \<lfloor>sw\<rfloor>
         \<and> fromWord (pixelHeight pic) = real_of_int \<lfloor>sh\<rfloor>
         \<and> 0 \<le> sx \<and> 0 \<le> sy
         \<and> 0 \<le> sw \<and> sw \<le> fromWord (naturalWidth baseImage)
         \<and> 0 \<le> sh \<and> sh \<le> fromWord (naturalHeight baseImage)
         \<and> Fin sx = div64 (sub64 (Fin (fromWord (naturalWidth baseImage))) (Fin sw)) (Fin 2)
         \<and> Fin sy = div64 (sub64 (Fin (fromWord (naturalHeight baseImage))) (Fin sh)) (Fin 2)
         \<and> \<bar>sx - (fromWord (naturalWidth baseImage) - sw) / 2\<bar> \<le> fromWord (naturalWidth baseImage) / 2 ^ 51
         \<and> \<bar>sy - (fromWord (naturalHeight baseImage) - sh) / 2\<bar> \<le> fromWord (naturalHeight baseImage) / 2 ^ 51
         \<and> (w / h < fromWord (naturalWidth baseImage) / fromWord (naturalHeight baseImage) \<longrightarrow>
               sh = fromWord (naturalHeight baseImage) \<and> sy = 0
             \<and> \<bar>sw - fromWord (naturalHeight baseImage) * (w / h)\<bar> \<le> fromWord (naturalWidth baseImage) / 2 ^ 51
             \<and> fromWord (pixelHeight pic) = fromWord (naturalHeight baseImage)
             \<and> \<bar>fromWord (pixelWidth pic) - fromWord (naturalHeight baseImage) * (w / h)\<bar>
                  < 1 + fromWord (naturalWidth baseImage) / 2 ^ 51)
         \<and> (fromWord (naturalWidth baseImage) / fromWord (naturalHeight baseImage) < w / h \<longrightarrow>
               sw = fromWord (naturalWidth baseImage) \<and> sx = 0
             \<and> \<bar>sh - fromWord (naturalWidth baseImage) / (w / h)\<bar> \<le> fromWord (naturalHeight baseImage) / 2 ^ 51
             \<and> fromWord (pixelWidth pic) = fromWord (naturalWidth baseImage)
             \<and> \<bar>fromWord (pixelHeight pic) - fromWord (naturalWidth baseImage) / (w / h)\<bar>
                  < 1 + fromWord (naturalHeight baseImage) / 2 ^ 51)
         \<and> (fromWord (naturalWidth baseImage) / fromWord (naturalHeight baseImage) = w / h \<longrightarrow>
               sw = fromWord (naturalWidth baseImage) \<and> sh = fromWord (naturalHeight baseImage)
             \<and> sx = 0 \<and> sy = 0
             \<and> fromWord (pixelWidth pic) = fromWord (naturalWidth baseImage)
             \<and> fromWord (pixelHeight pic) = fromWord (naturalHeight baseImage))"
proof -
  let ?W = "fromWord (naturalWidth baseImage)" and ?H = "fromWord (naturalHeight baseImage)"
  from crop_geometry [OF assms(8) assms(9) assms(6) assms(7) refl refl]
  obtain sx sy sw sh where rect: "cropRect baseImage (Fin w) (Fin h) = (Fin sx, Fin sy, Fin sw, Fin sh)"
    and bounds: "0 \<le> sx" "0 \<le> sy" "0 \<le> sw" "sw \<le> ?W" "0 \<le> sh" "sh \<le> ?H"
    and off: "Fin sx = div64 (sub64 (Fin ?W) (Fin sw)) (Fin 2)"
      "Fin sy = div64 (sub64 (Fin ?H) (Fin sh)) (Fin 2)"
      "\<bar>sx - (?W - sw) / 2\<bar> \<le> ?W / 2 ^ 51" "\<bar>sy - (?H - sh) / 2\<bar> \<le> ?H / 2 ^ 51"
    and wider: "w / h < ?W / ?H \<longrightarrow> sh = ?H \<and> sy = 0 \<and> \<bar>sw - ?H * (w / h)\<bar> \<le> ?W / 2 ^ 51"
    and taller: "?W / ?H < w / h \<longrightarrow> sw = ?W \<and> sx = 0 \<and> \<bar>sh - ?W / (w / h)\<bar> \<le> ?H / 2 ^ 51"
    and same: "?W / ?H = w / h \<longrightarrow> sw = ?W \<and> sh = ?H \<and> sx = 0 \<and> sy = 0"
    by blast
  from assms(3,4,5) have target: "targetOf b aspectRatio = (Some (Fin w), Some (Fin h))"
    by (simp add: targetOf_def element_def)
  from assms(6,7) have nf: "\<not> falsy (Some (Fin w))" "\<not> falsy (Some (Fin h))"
    by (simp_all add: falsy_def truthy_def)
  from applyTitle_textOnly [OF assms(1,2) target nf, of titleParts fontFamily subtitleOptions]
  obtain c where res: "applyTitle b baseImageSrc titleParts fontFamily subtitleOptions aspectRatio = Inr (toDataURL c)"
    and only: "textOnly (croppedCanvas baseImage (Fin w) (Fin h)) c"
    by (auto simp: toNumber_def)
  from only croppedCanvas_fields [OF rect]
  obtain texts where c: "width c = toUnsignedLong (Fin sw)" "height c = toUnsignedLong (Fin sh)"
    "drawn c = DrawImage9 baseImage (Fin sx) (Fin sy) (Fin sw) (Fin sh) (Fin 0) (Fin 0)
       (Fin (fromWord (toUnsignedLong (Fin sw)))) (Fin (fromWord (toUnsignedLong (Fin sh)))) initialState # texts"
    "list_all isText texts"
    by (auto simp: textOnly_def)
  from bounds have fw: "fromWord (toUnsignedLong (Fin sw)) = real_of_int \<lfloor>sw\<rfloor>"
    by (intro fromWord_toUnsignedLong [of sw "naturalWidth baseImage"]) simp_all
  from bounds have fh: "fromWord (toUnsignedLong (Fin sh)) = real_of_int \<lfloor>sh\<rfloor>"
    by (intro fromWord_toUnsignedLong [of sh "naturalHeight baseImage"]) simp_all
  let ?pic = "toDataURL c"
  have content: "content ?pic = DrawImage9 baseImage (Fin sx) (Fin sy) (Fin sw) (Fin sh) (Fin 0) (Fin 0)
       (Fin (fromWord (pixelWidth ?pic))) (Fin (fromWord (pixelHeight ?pic))) initialState # texts"
    by (simp add: toDataURL_def c)
  have px: "fromWord (pixelWidth ?pic) = real_of_int \<lfloor>sw\<rfloor>"
    "fromWord (pixelHeight ?pic) = real_of_int \<lfloor>sh\<rfloor>"
    by (simp_all add: toDataURL_def c fw fh)
  have whole: "real_of_int \<lfloor>?W\<rfloor> = ?W" "real_of_int \<lfloor>?H\<rfloor> = ?H"
    by (simp_all only: fromWord_def floor_of_nat of_int_of_nat_eq)
  have near: "\<bar>real_of_int \<lfloor>x\<rfloor> - y\<bar> < 1 + t" if "\<bar>x - y\<bar> \<le> t" for x y t :: real
    using that by linarith
  from wider px whole near [of sw "?H * (w / h)" "?W / 2 ^ 51"]
  have wider': "w / h < ?W / ?H \<longrightarrow>
      sh = ?H \<and> sy = 0 \<and> \<bar>sw - ?H * (w / h)\<bar> \<le> ?W / 2 ^ 51
      \<and> fromWord (pixelHeight ?pic) = ?H
      \<and> \<bar>fromWord (pixelWidth ?pic) - ?H * (w / h)\<bar> < 1 + ?W / 2 ^ 51"
    by simp
  from taller px whole near [of sh "?W / (w / h)" "?H / 2 ^ 51"]
  have taller': "?W / ?H < w / h \<longrightarrow>
      sw = ?W \<and> sx = 0 \<and> \<bar>sh - ?W / (w / h)\<bar> \<le> ?H / 2 ^ 51
      \<and> fromWord (pixelWidth ?pic) = ?W
      \<and> \<bar>fromWord (pixelHeight ?pic) - ?W / (w / h)\<bar> < 1 + ?H / 2 ^ 51"
    by simp
  from same px whole
  have same': "?W / ?H = w / h \<longrightarrow>
      sw = ?W \<and> sh = ?H \<and> sx = 0 \<and> sy = 0
      \<and> fromWord (pixelWidth ?pic) = ?W \<and> fromWord (pixelHeight ?pic) = ?H"
    by simp
  from res content c(4) px bounds off wider' taller' same' show ?thesis
    by blast
qed

text \<open>
  A square image of 1080 pixels cut to 9:7 gives a canvas of 1080 by 839: the height of
  the part, 1080 divided by the double nearest to 9/7, is a double just below 840.
\<close>

theorem applyTitle_centered_crop_witness:
  "\<exists>pic. applyTitle
       \<lparr>loadImage = (\<lambda>s. Some \<lparr>src = s, naturalWidth = 1080, naturalHeight = 1080\<rparr>),
        hasContext2d = True, measureText = (\<lambda>f s. px f * real (length s) / 2),
        jsNumber = decimalNumber\<rparr>
       ''data:image/png;base64,AAAA'' [\<lparr>partText = ''Hello'', partColor = ''#FFFFFF''\<rparr>] ''Oswald''
       (Some \<lparr>subtitleText = ''new'', subtitleColor = ''#FFFFFF''\<rparr>) ''9:7'' = Inr pic
     \<and> fromWord (pixelWidth pic) = 1080 \<and> fromWord (pixelHeight pic) = 839
     \<and> (\<exists>texts. content pic
           = DrawImage9 \<lparr>src = ''data:image/png;base64,AAAA'', naturalWidth = 1080, naturalHeight = 1080\<rparr>
               (Fin 0) (Fin (2111062325329921 / 17592186044416)) (Fin 1080)
               (Fin (7388718138654719 / 8796093022208)) (Fin 0) (Fin 0) (Fin 1080) (Fin 839)
               initialState # texts)"
proof -
  let ?b = "\<lparr>loadImage = (\<lambda>s. Some \<lparr>src = s, naturalWidth = 1080, naturalHeight = 1080\<rparr>),
        hasContext2d = True, measureText = (\<lambda>f s. px f * real (length s) / 2),
        jsNumber = decimalNumber\<rparr>"
  let ?img = "\<lparr>src = ''data:image/png;base64,AAAA'', naturalWidth = 1080, naturalHeight = 1080\<rparr>"
  have W: "fromWord (1080 :: 32 word) = 1080"
    by (simp add: fromWord_def)
  have hyps: "loadImage ?b ''data:image/png;base64,AAAA'' = Some ?img" "hasContext2d ?b"
    "split CHR '':'' ''9:7'' = ''9'' # ''7'' # []"
    "jsNumber ?b ''9'' = Fin 9" "jsNumber ?b ''7'' = Fin 7" "(0::real) < 9" "(0::real) < 7"
    "0 < fromWord (naturalWidth ?img)" "0 < fromWord (naturalHeight ?img)"
    by (simp_all add: W decimalNumber_def isDigit_def digitsValue_def)
  from applyTitle_centered_crop [OF hyps,
      of "[\<lparr>partText = ''Hello'', partColor = ''#FFFFFF''\<rparr>]" "''Oswald''"
      "Some \<lparr>subtitleText = ''new'', subtitleColor = ''#FFFFFF''\<rparr>"]
  obtain pic sx sy sw sh texts where
    res: "applyTitle ?b ''data:image/png;base64,AAAA'' [\<lparr>partText = ''Hello'', partColor = ''#FFFFFF''\<rparr>]
            ''Oswald'' (Some \<lparr>subtitleText = ''new'', subtitleColor = ''#FFFFFF''\<rparr>) ''9:7'' = Inr pic"
    and drawn: "content pic = DrawImage9 ?img (Fin sx) (Fin sy) (Fin sw) (Fin sh) (Fin 0) (Fin 0)
                 (Fin (fromWord (pixelWidth pic))) (Fin (fromWord (pixelHeight pic))) initialState # texts"
    and px: "fromWord (pixelWidth pic) = real_of_int \<lfloor>sw\<rfloor>" "fromWord (pixelHeight pic) = real_of_int \<lfloor>sh\<rfloor>"
    and sy: "Fin sy = div64 (sub64 (Fin (fromWord (naturalHeight ?img))) (Fin sh)) (Fin 2)"
    and taller': "fromWord (naturalWidth ?img) / fromWord (naturalHeight ?img) < 9 / 7 \<longrightarrow>
               sw = fromWord (naturalWidth ?img) \<and> sx = 0"
    by blast
  from taller' have sw: "sw = 1080" "sx = 0" by (simp_all add: W)
  have rect: "cropRect ?img (Fin 9) (Fin 7)
      = (Fin 0, Fin (2111062325329921 / 17592186044416), Fin 1080, Fin (7388718138654719 / 8796093022208))"
    by (simp add: cropRect_def W rounding)
  have target: "targetOf ?b ''9:7'' = (Some (Fin 9), Some (Fin 7))"
    by (simp add: targetOf_def element_def decimalNumber_def isDigit_def digitsValue_def)
  have nf: "\<not> falsy (Some (Fin 9))" "\<not> falsy (Some (Fin 7))"
    by (simp_all add: falsy_def truthy_def)
  from applyTitle_textOnly [OF hyps(1,2) target nf,
      of "[\<lparr>partText = ''Hello'', partColor = ''#FFFFFF''\<rparr>]" "''Oswald''"
      "Some \<lparr>subtitleText = ''new'', subtitleColor = ''#FFFFFF''\<rparr>"]
  obtain c where res': "applyTitle ?b ''data:image/png;base64,AAAA'' [\<lparr>partText = ''Hello'', partColor = ''#FFFFFF''\<rparr>]
            ''Oswald'' (Some \<lparr>subtitleText = ''new'', subtitleColor = ''#FFFFFF''\<rparr>) ''9:7'' = Inr (toDataURL c)"
    and only: "textOnly (croppedCanvas ?img (Fin 9) (Fin 7)) c"
    by (auto simp: toNumber_def)
  from res res' have pic: "pic = toDataURL c" by simp
  from only croppedCanvas_fields(3) [OF rect] obtain texts' where
    "drawn c = DrawImage9 ?img (Fin 0) (Fin (2111062325329921 / 17592186044416)) (Fin 1080)
       (Fin (7388718138654719 / 8796093022208)) (Fin 0) (Fin 0)
       (Fin (fromWord (toUnsignedLong (Fin 1080))))
       (Fin (fromWord (toUnsignedLong (Fin (7388718138654719 / 8796093022208))))) initialState # texts'"
    by (auto simp: textOnly_def)
  with drawn pic have sh: "sh = 7388718138654719 / 8796093022208" "sy = 2111062325329921 / 17592186044416"
    by (simp_all add: toDataURL_def)
  have fl: "\<lfloor>7388718138654719 / 8796093022208 :: real\<rfloor> = 839" by (simp add: floor_eq_iff)
  from res drawn px sw sh fl show ?thesis by simp
qed




text \<open>
  Claim C10. Let the aspect ratio string, split at the colons, not start with two
  pieces that both convert to a number other than 0 and NaN (pieces after the second are
  not looked at). Then \<^verbatim>\<open>applyTitle\<close> gives no picture but rejects, and it rejects
  with the error of the invalid aspect ratio format whenever the base image has loaded
  and the canvas gave a context, which are the two checks that come before; the ratio
  is checked before anything is drawn.
\<close>

theorem applyTitle_invalid_aspect_ratio:
  assumes "\<not> (\<exists>first second rest.
              split CHR '':'' aspectRatio = first # second # rest
            \<and> truthy (jsNumber b first) \<and> truthy (jsNumber b second))"
  shows "(\<exists>e. applyTitle b baseImageSrc titleParts fontFamily subtitleOptions aspectRatio = Inl e)
       \<and> (loadImage b baseImageSrc \<noteq> None \<and> hasContext2d b \<longrightarrow>
            applyTitle b baseImageSrc titleParts fontFamily subtitleOptions aspectRatio
              = Inl InvalidAspectRatioFormat)"
proof -
  have "falsy (fst (targetOf b aspectRatio)) \<or> falsy (snd (targetOf b aspectRatio))"
  proof (cases "split CHR '':'' aspectRatio")
    case Nil
    then show ?thesis by (simp add: targetOf_def element_def falsy_def)
  next
    case (Cons first tail)
    show ?thesis
    proof (cases tail)
      case Nil
      with Cons show ?thesis by (simp add: targetOf_def element_def falsy_def)
    next
      case (Cons second rest)
      with \<open>split CHR '':'' aspectRatio = first # tail\<close> assms
      have "\<not> truthy (jsNumber b first) \<or> \<not> truthy (jsNumber b second)" by simp
      with Cons \<open>split CHR '':'' aspectRatio = first # tail\<close> show ?thesis
        by (auto simp: targetOf_def element_def falsy_def)
    qed
  qed
  then show ?thesis
    by (auto simp: applyTitle_def split: option.splits prod.splits)
qed

text \<open>The strings \<^verbatim>\<open>16:\<close>, \<^verbatim>\<open>abc\<close> and \<^verbatim>\<open>0:5\<close> are rejected so.\<close>

theorem applyTitle_invalid_aspect_ratio_witness:
  "applyTitle
     \<lparr>loadImage = (\<lambda>s. Some \<lparr>src = s, naturalWidth = 1000, naturalHeight = 1000\<rparr>),
      hasContext2d = True, measureText = (\<lambda>f s. px f * real (length s) / 2),
      jsNumber = decimalNumber\<rparr>
     ''data:image/png;base64,AAAA'' [\<lparr>partText = ''Hello'', partColor = ''#FFFFFF''\<rparr>]
     ''Oswald'' None ''16:'' = Inl InvalidAspectRatioFormat
   \<and> applyTitle
     \<lparr>loadImage = (\<lambda>s. Some \<lparr>src = s, naturalWidth = 1000, naturalHeight = 1000\<rparr>),
      hasContext2d = True, measureText = (\<lambda>f s. px f * real (length s) / 2),
      jsNumber = decimalNumber\<rparr>
     ''data:image/png;base64,AAAA'' [\<lparr>partText = ''Hello'', partColor = ''#FFFFFF''\<rparr>]
     ''Oswald'' None ''abc'' = Inl InvalidAspectRatioFormat
   \<and> applyTitle
     \<lparr>loadImage = (\<lambda>s. Some \<lparr>src = s, naturalWidth = 1000, naturalHeight = 1000\<rparr>),
      hasContext2d = True, measureText = (\<lambda>f s. px f * real (length s) / 2),
      jsNumber = decimalNumber\<rparr>
     ''data:image/png;base64,AAAA'' [\<lparr>partText = ''Hello'', partColor = ''#FFFFFF''\<rparr>]
     ''Oswald'' None ''0:5'' = Inl InvalidAspectRatioFormat"
proof -
  let ?b = "\<lparr>loadImage = (\<lambda>s. Some \<lparr>src = s, naturalWidth = 1000, naturalHeight = 1000\<rparr>),
        hasContext2d = True, measureText = (\<lambda>f s. px f * real (length s) / 2),
        jsNumber = decimalNumber\<rparr>"
  have n: "decimalNumber [] = Fin 0" "decimalNumber ''0'' = Fin 0"
    by (simp_all add: decimalNumber_def digitsValue_def isDigit_def)
  have a: "\<not> (\<exists>first second rest. split CHR '':'' ''16:'' = first # second # rest
            \<and> truthy (jsNumber ?b first) \<and> truthy (jsNumber ?b second))"
    by (simp add: n truthy_def)
  have b: "\<not> (\<exists>first second rest. split CHR '':'' ''abc'' = first # second # rest
            \<and> truthy (jsNumber ?b first) \<and> truthy (jsNumber ?b second))"
    by simp
  have c: "\<not> (\<exists>first second rest. split CHR '':'' ''0:5'' = first # second # rest
            \<and> truthy (jsNumber ?b first) \<and> truthy (jsNumber ?b second))"
    by (simp add: n truthy_def)
  from applyTitle_invalid_aspect_ratio [OF a, of "''data:image/png;base64,AAAA''"
      "[\<lparr>partText = ''Hello'', partColor = ''#FFFFFF''\<rparr>]" "''Oswald''" None]
    applyTitle_invalid_aspect_ratio [OF b, of "''data:image/png;base64,AAAA''"
      "[\<lparr>partText = ''Hello'', partColor = ''#FFFFFF''\<rparr>]" "''Oswald''" None]
    applyTitle_invalid_aspect_ratio [OF c, of "''data:image/png;base64,AAAA''"
      "[\<lparr>partText = ''Hello'', partColor = ''#FFFFFF''\<rparr>]" "''Oswald''" None]
  show ?thesis by simp
qed

text \<open>
  Claim C6. Let the base image and the watermark have loaded, the watermark with a
  natural width and height that are positive, and let the canvas give a context. Then
  \<^verbatim>\<open>applyWatermark\<close> with a position and a size \<open>s\<close> gives a picture of the size of
  the base image, on which the base image is drawn and then the watermark, in a rectangle
  whose width is \<open>s\<close> times the width of the base image, whose height is that width
  divided by the ratio of the watermark's natural width to its natural height (so the
  rectangle has the proportions of the watermark), and which lies 20 pixels from the two
  edges of the canvas that meet in the requested corner.
\<close>

theorem applyWatermark_geometry:
  assumes "loadImage b baseImageSrc = Some baseImage" and "decoded watermarkFile = Some watermarkImage"
    and "hasContext2d b"
    and "0 < fromWord (naturalWidth watermarkImage)" and "0 < fromWord (naturalHeight watermarkImage)"
  shows "\<exists>x y watermarkWidth watermarkHeight st.
           applyWatermark b baseImageSrc watermarkFile opacity (Some position) (Some (Fin s))
             = Inr \<lparr>pixelWidth = naturalWidth baseImage, pixelHeight = naturalHeight baseImage,
                    content = [DrawImage3 baseImage (Fin 0) (Fin 0) initialState,
                               DrawImage5 watermarkImage (Fin x) (Fin y)
                                 (Fin watermarkWidth) (Fin watermarkHeight) st]\<rparr>
         \<and> watermarkWidth = fromWord (naturalWidth baseImage) * s
         \<and> watermarkHeight
             = watermarkWidth / (fromWord (naturalWidth watermarkImage) / fromWord (naturalHeight watermarkImage))
         \<and> watermarkWidth * fromWord (naturalHeight watermarkImage)
             = watermarkHeight * fromWord (naturalWidth watermarkImage)
         \<and> (position = topLeft \<or> position = bottomLeft \<longrightarrow> x = 20)
         \<and> (position = topRight \<or> position = bottomRight \<longrightarrow>
               x + watermarkWidth = fromWord (naturalWidth baseImage) - 20)
         \<and> (position = topLeft \<or> position = topRight \<longrightarrow> y = 20)
         \<and> (position = bottomLeft \<or> position = bottomRight \<longrightarrow>
               y + watermarkHeight = fromWord (naturalHeight baseImage) - 20)"
proof -
  let ?W = "fromWord (naturalWidth baseImage)" and ?H = "fromWord (naturalHeight baseImage)"
  let ?a = "fromWord (naturalWidth watermarkImage) / fromWord (naturalHeight watermarkImage)"
  let ?ww = "?W * s"
  let ?wh = "?ww / ?a"
  from assms(4,5) have a: "0 < ?a" by simp
  have rect: "watermarkRect baseImage watermarkImage position (Fin s)
      = (Fin (if position = topLeft \<or> position = bottomLeft then 20 else ?W - ?ww - 20),
         Fin (if position = topLeft \<or> position = topRight then 20 else ?H - ?wh - 20),
         Fin ?ww, Fin ?wh)"
    using assms(4,5) by (cases position) (simp_all add: watermarkRect_def Let_def jsub_def)
  have keep: "?ww * fromWord (naturalHeight watermarkImage) = ?wh * fromWord (naturalWidth watermarkImage)"
    using assms(4,5) by simp
  have "\<exists>st. applyWatermark b baseImageSrc watermarkFile opacity (Some position) (Some (Fin s))
             = Inr \<lparr>pixelWidth = naturalWidth baseImage, pixelHeight = naturalHeight baseImage,
                    content = [DrawImage3 baseImage (Fin 0) (Fin 0) initialState,
                               DrawImage5 watermarkImage
                                 (Fin (if position = topLeft \<or> position = bottomLeft then 20 else ?W - ?ww - 20))
                                 (Fin (if position = topLeft \<or> position = topRight then 20 else ?H - ?wh - 20))
                                 (Fin ?ww) (Fin ?wh) st]\<rparr>"
    using assms(1,2,3)
    by (simp add: applyWatermark_def Let_def rect toDataURL_def newCanvas_def setGlobalAlpha_def
        split: jsnum.split)
  then obtain st where res: "applyWatermark b baseImageSrc watermarkFile opacity (Some position) (Some (Fin s))
             = Inr \<lparr>pixelWidth = naturalWidth baseImage, pixelHeight = naturalHeight baseImage,
                    content = [DrawImage3 baseImage (Fin 0) (Fin 0) initialState,
                               DrawImage5 watermarkImage
                                 (Fin (if position = topLeft \<or> position = bottomLeft then 20 else ?W - ?ww - 20))
                                 (Fin (if position = topLeft \<or> position = topRight then 20 else ?H - ?wh - 20))
                                 (Fin ?ww) (Fin ?wh) st]\<rparr>" ..
  have pos: "(position = topLeft \<or> position = bottomLeft \<longrightarrow>
        (if position = topLeft \<or> position = bottomLeft then 20 else ?W - ?ww - 20) = 20)
     \<and> (position = topRight \<or> position = bottomRight \<longrightarrow>
        (if position = topLeft \<or> position = bottomLeft then 20 else ?W - ?ww - 20) + ?ww = ?W - 20)
     \<and> (position = topLeft \<or> position = topRight \<longrightarrow>
        (if position = topLeft \<or> position = topRight then 20 else ?H - ?wh - 20) = 20)
     \<and> (position = bottomLeft \<or> position = bottomRight \<longrightarrow>
        (if position = topLeft \<or> position = topRight then 20 else ?H - ?wh - 20) + ?wh = ?H - 20)"
    by (cases position) simp_all
  from res keep pos show ?thesis by blast
qed

text \<open>
  A watermark of 200 by 100 at size 0.15 in the bottom right corner of a base image of
  1000 by 800 is drawn 150 wide and 75 high at (830, 705).
\<close>

theorem applyWatermark_geometry_witness:
  "\<exists>st. applyWatermark
       \<lparr>loadImage = (\<lambda>s. Some \<lparr>src = s, naturalWidth = 1000, naturalHeight = 800\<rparr>),
        hasContext2d = True, measureText = (\<lambda>f s. px f * real (length s) / 2),
        jsNumber = decimalNumber\<rparr>
       ''data:image/png;base64,AAAA''
       \<lparr>fileName = ''logo.png'', fileType = ''image/png'', readAsDataURL = None,
        decoded = Some \<lparr>src = ''blob:logo'', naturalWidth = 200, naturalHeight = 100\<rparr>\<rparr>
       (Fin (1 / 2)) (Some bottomRight) (Some (Fin (3 / 20)))
     = Inr \<lparr>pixelWidth = 1000, pixelHeight = 800,
            content = [DrawImage3 \<lparr>src = ''data:image/png;base64,AAAA'', naturalWidth = 1000, naturalHeight = 800\<rparr>
                         (Fin 0) (Fin 0) initialState,
                       DrawImage5 \<lparr>src = ''blob:logo'', naturalWidth = 200, naturalHeight = 100\<rparr>
                         (Fin 830) (Fin 705) (Fin 150) (Fin 75) st]\<rparr>"
proof -
  let ?b = "\<lparr>loadImage = (\<lambda>s. Some \<lparr>src = s, naturalWidth = 1000, naturalHeight = 800\<rparr>),
        hasContext2d = True, measureText = (\<lambda>f s. px f * real (length s) / 2),
        jsNumber = decimalNumber\<rparr>"
  let ?base = "\<lparr>src = ''data:image/png;base64,AAAA'', naturalWidth = 1000, naturalHeight = 800\<rparr>"
  let ?wm = "\<lparr>src = ''blob:logo'', naturalWidth = 200, naturalHeight = 100\<rparr>"
  let ?file = "\<lparr>fileName = ''logo.png'', fileType = ''image/png'', readAsDataURL = None, decoded = Some ?wm\<rparr>"
  have W: "fromWord (1000 :: 32 word) = 1000" "fromWord (800 :: 32 word) = 800"
    "fromWord (200 :: 32 word) = 200" "fromWord (100 :: 32 word) = 100"
    by (simp_all add: fromWord_def)
  have h: "loadImage ?b ''data:image/png;base64,AAAA'' = Some ?base" "decoded ?file = Some ?wm"
    "hasContext2d ?b" "0 < fromWord (naturalWidth ?wm)" "0 < fromWord (naturalHeight ?wm)"
    by (simp_all add: W)
  from applyWatermark_geometry [OF h, of "Fin (1 / 2)" bottomRight "3 / 20"]
  obtain x y watermarkWidth watermarkHeight st where
    res: "applyWatermark ?b ''data:image/png;base64,AAAA'' ?file (Fin (1 / 2)) (Some bottomRight) (Some (Fin (3 / 20)))
             = Inr \<lparr>pixelWidth = naturalWidth ?base, pixelHeight = naturalHeight ?base,
                    content = [DrawImage3 ?base (Fin 0) (Fin 0) initialState,
                               DrawImage5 ?wm (Fin x) (Fin y) (Fin watermarkWidth) (Fin watermarkHeight) st]\<rparr>"
    and w: "watermarkWidth = fromWord (naturalWidth ?base) * (3 / 20)"
    and ht: "watermarkHeight = watermarkWidth / (fromWord (naturalWidth ?wm) / fromWord (naturalHeight ?wm))"
    and x: "x + watermarkWidth = fromWord (naturalWidth ?base) - 20"
    and y: "y + watermarkHeight = fromWord (naturalHeight ?base) - 20"
    by blast
  from w have w': "watermarkWidth = 150" by (simp add: W)
  from ht w' have h': "watermarkHeight = 75" by (simp add: W)
  from x w' have x': "x = 830" by (simp add: W)
  from y h' have y': "y = 705" by (simp add: W)
  from res show ?thesis unfolding w' h' x' y' by simp
qed

section \<open>The remote enhancement: claims\<close>

text \<open>
  Claim C3, as the code has it. When the files were read and the service has replied,
  \<^verbatim>\<open>enhanceImage\<close> rejects with the error of a blocked request, for a reason, exactly
  when the reply has a first candidate whose finish reason is that reason and is
  neither empty nor \<^verbatim>\<open>STOP\<close> nor \<^verbatim>\<open>MAX_TOKENS\<close>. A reply that stopped at the
  length limit is thus read like one that stopped normally.
\<close>

theorem blocked_request_iff:
  assumes "buildParts file options aspectRatio = Inr parts" and "generateContent parts = Inr r"
  shows "fst (enhanceImage generateContent file options aspectRatio) = Inl (GeminiApiError (RequestBlocked reason))
     \<longleftrightarrow> (\<exists>c cs. candidates r = Some (c # cs) \<and> finishReason c = Some reason
            \<and> reason \<noteq> [] \<and> reason \<noteq> ''STOP'' \<and> reason \<noteq> ''MAX_TOKENS'')"
proof -
  have "fst (enhanceImage generateContent file options aspectRatio) = Inl (GeminiApiError (RequestBlocked reason))
      \<longleftrightarrow> readResponse r = Inl (ErrorObject (RequestBlocked reason))"
    by (simp add: enhanceImage_reply [where generateContent = generateContent, OF assms]
        split: sum.split thrown.split)
  then show ?thesis
    by (simp add: readResponse_blocked_iff blockedReason_iff)
qed


text \<open>A first candidate that finished for \<^verbatim>\<open>SAFETY\<close> is rejected as blocked.\<close>

theorem blocked_request_iff_witness:
  "fst (enhanceImage
      (\<lambda>parts. Inr \<lparr>candidates = Some [\<lparr>finishReason = Some ''SAFETY'', contentParts = None\<rparr>]\<rparr>)
      \<lparr>fileName = ''shoe.png'', fileType = ''image/png'',
       readAsDataURL = Some ''data:image/png;base64,AAAA'', decoded = None\<rparr>
      \<lparr>style = default, color1 = Some ''#4ade80'', color2 = Some ''#3b82f6'', backgroundImage = None\<rparr> ''1:1'')
   = Inl (GeminiApiError (RequestBlocked ''SAFETY''))"
proof -
  let ?r = "\<lparr>candidates = Some [\<lparr>finishReason = Some ''SAFETY'', contentParts = None\<rparr>]\<rparr>"
  let ?g = "\<lambda>parts :: requestPart list. (Inr ?r :: thrown + response)"
  have "?g [InlineData ''AAAA'' ''image/png'', Text \<lparr>instruction = DefaultGradient, ratio = ''1:1''\<rparr>] = Inr ?r"
    by simp
  from blocked_request_iff [where generateContent = ?g, OF buildParts_example this, of "''SAFETY''"]
  show ?thesis by simp
qed

text \<open>
  Claim C3 as stated fails for the finish reason \<^verbatim>\<open>MAX_TOKENS\<close>, which is not the
  normal stop: no error of a blocked request is thrown, and the image of the reply is
  returned.
\<close>

theorem blocked_request_counterexample:
  "fst (enhanceImage
      (\<lambda>parts. Inr \<lparr>candidates = Some [\<lparr>finishReason = Some ''MAX_TOKENS'',
          contentParts = Some [\<lparr>inlineData = Some \<lparr>data = ''iVBORw0KGgo='', mimeType = ''image/png''\<rparr>,
                                responseText = None\<rparr>]\<rparr>]\<rparr>)
      \<lparr>fileName = ''shoe.png'', fileType = ''image/png'',
       readAsDataURL = Some ''data:image/png;base64,AAAA'', decoded = None\<rparr>
      \<lparr>style = default, color1 = Some ''#4ade80'', color2 = Some ''#3b82f6'', backgroundImage = None\<rparr> ''1:1'')
   = Inr ''iVBORw0KGgo=''"
  by (simp add: enhanceImage_def tryEnhance_def buildParts_example readResponse_def blockedReason_def)

text \<open>
  Claim C8. When the files were read and the service has replied: if the first candidate
  finished with \<^verbatim>\<open>STOP\<close> and one of its parts carries inline data, the data of the
  first such part, in the order of the parts, is returned; if it finished with
  \<^verbatim>\<open>STOP\<close>, none of its parts carries inline data and some part has a text that is
  not empty, the rejection is the error of text instead of an image, holding the texts
  of the parts that have one that is not empty, in the order of the parts, joined by
  spaces and trimmed, whatever the other parts are; if there is no candidate, or the
  first candidate finished with \<^verbatim>\<open>STOP\<close> and has no parts, or parts none of which
  carries inline data or a text that is not empty, the rejection is the error of no
  image. In every case a rejection of \<^verbatim>\<open>enhanceImage\<close> is the one error that wraps what
  the \<^verbatim>\<open>try\<close> block threw, with the message of the error thrown, or with the message
  of an unknown failure when what was thrown is no error object; and at most one request
  is sent to the service, so nothing is retried.
\<close>

theorem reply_handling:
  "(buildParts file options aspectRatio = Inr parts \<and> generateContent parts = Inr r \<longrightarrow>
      (\<forall>c cs before p after payload.
            candidates r = Some (c # cs) \<and> finishReason c = Some ''STOP''
            \<and> contentParts c = Some (before @ p # after)
            \<and> (\<forall>q \<in> set before. inlineData q = None) \<and> inlineData p = Some payload \<longrightarrow>
            fst (enhanceImage generateContent file options aspectRatio) = Inr (data payload))
       \<and> (\<forall>c cs ps texts.
            candidates r = Some (c # cs) \<and> finishReason c = Some ''STOP'' \<and> contentParts c = Some ps
            \<and> (\<forall>q \<in> set ps. inlineData q = None)
            \<and> texts = filter (\<lambda>t. t \<noteq> []) (List.map_filter responseText ps) \<and> texts \<noteq> [] \<longrightarrow>
            fst (enhanceImage generateContent file options aspectRatio)
              = Inl (GeminiApiError (TextInsteadOfImage (trim (join texts)))))
       \<and> (candidates r = None \<or> candidates r = Some []
            \<or> (\<exists>c cs. candidates r = Some (c # cs) \<and> finishReason c = Some ''STOP''
                  \<and> (contentParts c = None
                       \<or> (\<exists>ps. contentParts c = Some ps \<and> (\<forall>q \<in> set ps. inlineData q = None)
                              \<and> filter (\<lambda>t. t \<noteq> []) (List.map_filter responseText ps) = []))) \<longrightarrow>
            fst (enhanceImage generateContent file options aspectRatio) = Inl (GeminiApiError NoImageReturned)))
   \<and> (\<forall>e. fst (enhanceImage generateContent file options aspectRatio) = Inl e \<longrightarrow>
          (\<exists>f. fst (tryEnhance generateContent file options aspectRatio) = Inl (ErrorObject f)
                \<and> e = GeminiApiError f)
        \<or> (fst (tryEnhance generateContent file options aspectRatio) = Inl OtherValue \<and> e = UnknownError))
   \<and> length (snd (enhanceImage generateContent file options aspectRatio)) \<le> 1"
proof -
  have "\<forall>e. fst (enhanceImage generateContent file options aspectRatio) = Inl e \<longrightarrow>
          (\<exists>f. fst (tryEnhance generateContent file options aspectRatio) = Inl (ErrorObject f)
                \<and> e = GeminiApiError f)
        \<or> (fst (tryEnhance generateContent file options aspectRatio) = Inl OtherValue \<and> e = UnknownError)"
    by (auto simp: enhanceImage_wraps split: sum.splits thrown.splits)
  with reply_cases [of _ options aspectRatio parts generateContent r]
    enhanceImage_one_request
  show ?thesis by blast
qed

text \<open>
  A reply that holds a text and then two images gives the data of the first image. A
  reply whose parts are a text, a part with neither text nor data, a part with an empty
  text and a second text is rejected with the two texts joined by one space. A reply
  whose only parts have no text or an empty one is rejected with the error of no image.
\<close>

theorem reply_handling_witness:
  "fst (enhanceImage
      (\<lambda>parts. Inr \<lparr>candidates = Some [\<lparr>finishReason = Some ''STOP'',
          contentParts = Some [\<lparr>inlineData = None, responseText = Some ''Here it is''\<rparr>,
                               \<lparr>inlineData = Some \<lparr>data = ''iVBORw0KGgo='', mimeType = ''image/png''\<rparr>,
                                responseText = None\<rparr>,
                               \<lparr>inlineData = Some \<lparr>data = ''R0lGODlh'', mimeType = ''image/gif''\<rparr>,
                                responseText = None\<rparr>]\<rparr>]\<rparr>)
      \<lparr>fileName = ''shoe.png'', fileType = ''image/png'',
       readAsDataURL = Some ''data:image/png;base64,AAAA'', decoded = None\<rparr>
      \<lparr>style = default, color1 = Some ''#4ade80'', color2 = Some ''#3b82f6'', backgroundImage = None\<rparr> ''1:1'')
   = Inr ''iVBORw0KGgo=''
   \<and> fst (enhanceImage
      (\<lambda>parts. Inr \<lparr>candidates = Some [\<lparr>finishReason = Some ''STOP'',
          contentParts = Some [\<lparr>inlineData = None, responseText = Some ''I cannot''\<rparr>,
                               \<lparr>inlineData = None, responseText = None\<rparr>,
                               \<lparr>inlineData = None, responseText = Some []\<rparr>,
                               \<lparr>inlineData = None, responseText = Some ''edit this. ''\<rparr>]\<rparr>]\<rparr>)
      \<lparr>fileName = ''shoe.png'', fileType = ''image/png'',
       readAsDataURL = Some ''data:image/png;base64,AAAA'', decoded = None\<rparr>
      \<lparr>style = default, color1 = Some ''#4ade80'', color2 = Some ''#3b82f6'', backgroundImage = None\<rparr> ''1:1'')
   = Inl (GeminiApiError (TextInsteadOfImage ''I cannot edit this.''))
   \<and> fst (enhanceImage
      (\<lambda>parts. Inr \<lparr>candidates = Some [\<lparr>finishReason = Some ''STOP'',
          contentParts = Some [\<lparr>inlineData = None, responseText = None\<rparr>,
                               \<lparr>inlineData = None, responseText = Some []\<rparr>]\<rparr>]\<rparr>)
      \<lparr>fileName = ''shoe.png'', fileType = ''image/png'',
       readAsDataURL = Some ''data:image/png;base64,AAAA'', decoded = None\<rparr>
      \<lparr>style = default, color1 = Some ''#4ade80'', color2 = Some ''#3b82f6'', backgroundImage = None\<rparr> ''1:1'')
   = Inl (GeminiApiError NoImageReturned)"
proof -
  let ?file = "\<lparr>fileName = ''shoe.png'', fileType = ''image/png'',
         readAsDataURL = Some ''data:image/png;base64,AAAA'', decoded = None\<rparr>"
  let ?options = "\<lparr>style = default, color1 = Some ''#4ade80'', color2 = Some ''#3b82f6'',
         backgroundImage = None\<rparr>"
  let ?parts = "[InlineData ''AAAA'' ''image/png'', Text \<lparr>instruction = DefaultGradient, ratio = ''1:1''\<rparr>]"
  let ?p1 = "\<lparr>inlineData = None, responseText = Some ''Here it is''\<rparr>"
  let ?p2 = "\<lparr>inlineData = Some \<lparr>data = ''iVBORw0KGgo='', mimeType = ''image/png''\<rparr>, responseText = None\<rparr>"
  let ?p3 = "\<lparr>inlineData = Some \<lparr>data = ''R0lGODlh'', mimeType = ''image/gif''\<rparr>, responseText = None\<rparr>"
  let ?c = "\<lparr>finishReason = Some ''STOP'', contentParts = Some [?p1, ?p2, ?p3]\<rparr>"
  let ?r = "\<lparr>candidates = Some [?c]\<rparr>"
  let ?g = "\<lambda>parts :: requestPart list. (Inr ?r :: thrown + response)"
  let ?ps' = "[\<lparr>inlineData = None, responseText = Some ''I cannot''\<rparr>,
               \<lparr>inlineData = None, responseText = None\<rparr>,
               \<lparr>inlineData = None, responseText = Some []\<rparr>,
               \<lparr>inlineData = None, responseText = Some ''edit this. ''\<rparr>]"
  let ?c' = "\<lparr>finishReason = Some ''STOP'', contentParts = Some ?ps'\<rparr>"
  let ?r' = "\<lparr>candidates = Some [?c']\<rparr>"
  let ?g' = "\<lambda>parts :: requestPart list. (Inr ?r' :: thrown + response)"
  let ?ps'' = "[\<lparr>inlineData = None, responseText = None\<rparr>,
                \<lparr>inlineData = None, responseText = Some []\<rparr>]"
  let ?c'' = "\<lparr>finishReason = Some ''STOP'', contentParts = Some ?ps''\<rparr>"
  let ?r'' = "\<lparr>candidates = Some [?c'']\<rparr>"
  let ?g'' = "\<lambda>parts :: requestPart list. (Inr ?r'' :: thrown + response)"
  have "?g ?parts = Inr ?r" by simp
  with reply_handling [of ?file ?options "''1:1''" ?parts ?g ?r] buildParts_example
  have "\<forall>c cs before p after payload.
            candidates ?r = Some (c # cs) \<and> finishReason c = Some ''STOP''
            \<and> contentParts c = Some (before @ p # after)
            \<and> (\<forall>q \<in> set before. inlineData q = None) \<and> inlineData p = Some payload \<longrightarrow>
            fst (enhanceImage ?g ?file ?options ''1:1'') = Inr (data payload)"
    by blast
  from this [rule_format, of ?c "[]" "[?p1]" ?p2 "[?p3]"
      "\<lparr>data = ''iVBORw0KGgo='', mimeType = ''image/png''\<rparr>"]
  have image_case: "fst (enhanceImage ?g ?file ?options ''1:1'') = Inr ''iVBORw0KGgo=''"
    by simp
  have "?g' ?parts = Inr ?r'" by simp
  with reply_handling [of ?file ?options "''1:1''" ?parts ?g' ?r'] buildParts_example
  have "\<forall>c cs ps texts.
            candidates ?r' = Some (c # cs) \<and> finishReason c = Some ''STOP'' \<and> contentParts c = Some ps
            \<and> (\<forall>q \<in> set ps. inlineData q = None)
            \<and> texts = filter (\<lambda>t. t \<noteq> []) (List.map_filter responseText ps) \<and> texts \<noteq> [] \<longrightarrow>
            fst (enhanceImage ?g' ?file ?options ''1:1'')
              = Inl (GeminiApiError (TextInsteadOfImage (trim (join texts))))"
    by blast
  from this [rule_format, of ?c' "[]" ?ps' "[''I cannot'', ''edit this. '']"]
  have "fst (enhanceImage ?g' ?file ?options ''1:1'')
      = Inl (GeminiApiError (TextInsteadOfImage (trim (join [''I cannot'', ''edit this. '']))))"
    by (simp add: List.map_filter_simps)
  also have "trim (join [''I cannot'', ''edit this. '']) = ''I cannot edit this.''"
    by (simp add: trim_def isWhiteSpace_def)
  finally have text_case: "fst (enhanceImage ?g' ?file ?options ''1:1'')
      = Inl (GeminiApiError (TextInsteadOfImage ''I cannot edit this.''))" .
  have "?g'' ?parts = Inr ?r''" by simp
  with reply_handling [of ?file ?options "''1:1''" ?parts ?g'' ?r''] buildParts_example
  have "candidates ?r'' = None \<or> candidates ?r'' = Some []
            \<or> (\<exists>c cs. candidates ?r'' = Some (c # cs) \<and> finishReason c = Some ''STOP''
                  \<and> (contentParts c = None
                       \<or> (\<exists>ps. contentParts c = Some ps \<and> (\<forall>q \<in> set ps. inlineData q = None)
                              \<and> filter (\<lambda>t. t \<noteq> []) (List.map_filter responseText ps) = []))) \<longrightarrow>
            fst (enhanceImage ?g'' ?file ?options ''1:1'') = Inl (GeminiApiError NoImageReturned)"
    by blast
  then have nothing_case: "fst (enhanceImage ?g'' ?file ?options ''1:1'') = Inl (GeminiApiError NoImageReturned)"
    by (simp add: List.map_filter_simps)
  from image_case text_case nothing_case show ?thesis by simp
qed
end
